theory Spec2Isabelle
  imports Main "HOL-Library.Sublist"
begin

section \<open>Strings and the library tables of the host language\<close>

text \<open>
  The pipeline of \<^verbatim>\<open>experiments/scripts/01_data_processing.py\<close> works on Python
  \<^verbatim>\<open>str\<close> values: sequences of Unicode code points, whose \<^verbatim>\<open>len\<close> counts code
  points. A string is therefore a list of code points, each a natural number.
\<close>

type_synonym ustring = "nat list"

text \<open>ASCII literals are written through \<open>u\<close>; other literals by their code points.\<close>

definition u :: "string \<Rightarrow> ustring" where
  "u s = map of_char s"

text \<open>
  \<^verbatim>\<open>str.isspace\<close>, which is also the class \<^verbatim>\<open>\s\<close> of \<^verbatim>\<open>re\<close> on \<^verbatim>\<open>str\<close> patterns and
  the set that \<^verbatim>\<open>str.strip()\<close> removes.
\<close>

definition isspace :: "nat \<Rightarrow> bool" where
  "isspace c \<longleftrightarrow>
     (9 \<le> c \<and> c \<le> 13) \<or> (28 \<le> c \<and> c \<le> 32) \<or> c = 133 \<or> c = 160 \<or> c = 5760 \<or>
     (8192 \<le> c \<and> c \<le> 8202) \<or> c = 8232 \<or> c = 8233 \<or> c = 8239 \<or> c = 8287 \<or> c = 12288"

text \<open>
  The tables of the Unicode database that the script reads through \<^verbatim>\<open>str.isprintable\<close>,
  \<^verbatim>\<open>\d\<close>, \<^verbatim>\<open>str.lower\<close>, and the digest of \<^verbatim>\<open>hashlib.md5\<close>, are not part of the
  repository. On ASCII they are written out below; beyond ASCII they are parameters.
  \<open>lower_hi\<close> gives the lower-case expansion of one code point (the context rule for a
  final sigma is not represented: it only chooses between two non-ASCII letters).
  \<open>md5_hex\<close> stands for \<^verbatim>\<open>hashlib.md5(b).hexdigest()\<close> on the UTF-8 encoding \<open>b\<close> of a
  string that has one.
\<close>

record pylib =
  printable_hi :: "nat \<Rightarrow> bool"
  decimal_hi :: "nat \<Rightarrow> bool"
  lower_hi :: "nat \<Rightarrow> ustring"
  md5_hex :: "ustring \<Rightarrow> ustring"

definition isprintable :: "pylib \<Rightarrow> nat \<Rightarrow> bool" where
  "isprintable L c = (if c < 128 then 32 \<le> c \<and> c < 127 else printable_hi L c)"

definition isdecimal :: "pylib \<Rightarrow> nat \<Rightarrow> bool" where
  "isdecimal L c = (if c < 128 then 48 \<le> c \<and> c \<le> 57 else decimal_hi L c)"

definition lower_char :: "pylib \<Rightarrow> nat \<Rightarrow> ustring" where
  "lower_char L c = (if c < 128 then (if 65 \<le> c \<and> c \<le> 90 then [c + 32] else [c]) else lower_hi L c)"

definition lower :: "pylib \<Rightarrow> ustring \<Rightarrow> ustring" where
  "lower L s = concat (map (lower_char L) s)"

definition lstrip :: "ustring \<Rightarrow> ustring" where
  "lstrip s = dropWhile isspace s"

definition rstrip :: "ustring \<Rightarrow> ustring" where
  "rstrip s = rev (dropWhile isspace (rev s))"

definition strip :: "ustring \<Rightarrow> ustring" where
  "strip s = rstrip (lstrip s)"

definition startswith :: "ustring \<Rightarrow> ustring \<Rightarrow> bool" where
  "startswith s p \<longleftrightarrow> take (length p) s = p"

definition endswith :: "ustring \<Rightarrow> ustring \<Rightarrow> bool" where
  "endswith s p \<longleftrightarrow> length p \<le> length s \<and> drop (length s - length p) s = p"

text \<open>\<^verbatim>\<open>str(n)\<close> of a non-negative integer, as the f-strings of the script print it.\<close>

fun str_nat :: "nat \<Rightarrow> ustring" where
  "str_nat n = (if n < 10 then [48 + n] else str_nat (n div 10) @ [48 + n mod 10])"

declare str_nat.simps [simp del]

section \<open>Configuration\<close>

text \<open>
  The module-level constants \<^verbatim>\<open>CHUNK_SIZE\<close>, \<^verbatim>\<open>MIN_CHUNK_SIZE\<close> and
  \<^verbatim>\<open>OVERLAP_SENTENCES\<close>, gathered in a record so that the functions can be studied at
  other settings than the ones the script fixes.
\<close>

record config =
  CHUNK_SIZE :: nat
  MIN_CHUNK_SIZE :: nat
  OVERLAP_SENTENCES :: nat

definition default_config :: config where
  "default_config = \<lparr> CHUNK_SIZE = 500, MIN_CHUNK_SIZE = 50, OVERLAP_SENTENCES = 2 \<rparr>"

section \<open>Cleaning\<close>

text \<open>\<^verbatim>\<open>re.sub(r'\s+', ' ', text)\<close>: every maximal run of whitespace becomes one space.\<close>

function sub_spaces :: "ustring \<Rightarrow> ustring" where
  "sub_spaces [] = []"
| "sub_spaces (c # cs) =
     (if isspace c then 32 # sub_spaces (dropWhile isspace cs) else c # sub_spaces cs)"
  by pat_completeness auto
termination
  by (relation "measure length") (auto simp: less_Suc_eq_le length_dropWhile_le)

definition clean_text_basic :: "pylib \<Rightarrow> ustring \<Rightarrow> ustring" where
  "clean_text_basic L text =
     (if text = [] then []
      else strip (filter (isprintable L) (sub_spaces text)))"

section \<open>Sentences\<close>

text \<open>The class \<^verbatim>\<open>[\<dots>\n]\<close> of full stop U+3002, U+FF01, U+FF1F and the newline.\<close>

definition is_terminator :: "nat \<Rightarrow> bool" where
  "is_terminator c \<longleftrightarrow> c = 12290 \<or> c = 65281 \<or> c = 65311"

definition is_delim :: "nat \<Rightarrow> bool" where
  "is_delim c \<longleftrightarrow> is_terminator c \<or> c = 10"

text \<open>
  \<^verbatim>\<open>re.split\<close> with the delimiter class in a capturing group: the pieces between
  delimiters alternate with the one-character delimiters. The first argument is the piece
  read so far.
\<close>

fun re_split :: "ustring \<Rightarrow> ustring \<Rightarrow> ustring list" where
  "re_split piece [] = [piece]"
| "re_split piece (c # cs) =
     (if is_delim c then piece # [c] # re_split [] cs else re_split (piece @ [c]) cs)"

text \<open>\<^verbatim>\<open>re.match(pattern, part)\<close>: the part begins with a delimiter.\<close>

definition match_delim :: "ustring \<Rightarrow> bool" where
  "match_delim part = (case part of [] \<Rightarrow> False | c # _ \<Rightarrow> is_delim c)"

text \<open>The loop over the parts, with its two variables \<^verbatim>\<open>sentences\<close> and \<^verbatim>\<open>current_sent\<close>.\<close>

fun split_loop :: "ustring list \<Rightarrow> ustring \<Rightarrow> ustring list \<Rightarrow> ustring list" where
  "split_loop sentences current_sent [] =
     (if current_sent \<noteq> [] then sentences @ [strip current_sent] else sentences)"
| "split_loop sentences current_sent (part # parts) =
     (if match_delim part
      then split_loop (sentences @ [strip (current_sent @ part)]) [] parts
      else split_loop sentences (current_sent @ part) parts)"

definition split_sentences :: "ustring \<Rightarrow> ustring list" where
  "split_sentences text = filter (\<lambda>s. s \<noteq> []) (split_loop [] [] (re_split [] text))"

section \<open>Chunks\<close>

text \<open>
  \<^verbatim>\<open>current_chunk[-OVERLAP_SENTENCES:]\<close> when the chunk has that many sentences, the whole
  chunk otherwise. A slice from \<^verbatim>\<open>-0\<close> is the slice from \<^verbatim>\<open>0\<close>: the whole list.
\<close>

definition overlap_data :: "nat \<Rightarrow> ustring list \<Rightarrow> ustring list" where
  "overlap_data ovl current_chunk =
     (if length current_chunk \<ge> ovl
      then (if ovl = 0 then current_chunk else drop (length current_chunk - ovl) current_chunk)
      else current_chunk)"

text \<open>
  The loop of \<^verbatim>\<open>semantic_chunking\<close> over the sentences, with its variables
  \<^verbatim>\<open>chunks\<close>, \<^verbatim>\<open>current_chunk\<close> and \<^verbatim>\<open>current_len\<close>, and the flush after the loop.
\<close>

fun chunk_loop ::
  "config \<Rightarrow> ustring list \<Rightarrow> ustring list \<Rightarrow> nat \<Rightarrow> ustring list \<Rightarrow> ustring list" where
  "chunk_loop cfg chunks current_chunk current_len [] =
     (if current_chunk \<noteq> [] then chunks @ [concat current_chunk] else chunks)"
| "chunk_loop cfg chunks current_chunk current_len (sent # sents) =
     (if current_len + length sent > CHUNK_SIZE cfg \<and> current_len > 0
      then (let od = overlap_data (OVERLAP_SENTENCES cfg) current_chunk
            in chunk_loop cfg (chunks @ [concat current_chunk]) (od @ [sent])
                 (sum_list (map length od) + length sent) sents)
      else chunk_loop cfg chunks (current_chunk @ [sent]) (current_len + length sent) sents)"

definition assemble :: "config \<Rightarrow> ustring list \<Rightarrow> ustring list" where
  "assemble cfg sentences = chunk_loop cfg [] [] 0 sentences"

definition semantic_chunking :: "config \<Rightarrow> ustring \<Rightarrow> ustring list" where
  "semantic_chunking cfg text = assemble cfg (split_sentences text)"

section \<open>Section titles and anchors\<close>

text \<open>The class of the ten numerals U+4E00, U+4E8C, \<dots>, U+5341 of the chapter pattern.\<close>

definition is_cjk_numeral :: "nat \<Rightarrow> bool" where
  "is_cjk_numeral c \<longleftrightarrow>
     c \<in> set [19968, 20108, 19977, 22235, 20116, 20845, 19971, 20843, 20061, 21313]"

text \<open>
  The first alternative of the pattern of \<^verbatim>\<open>extract_title\<close>, anchored at the start:
  U+7B2C, one or more numerals, U+7AE0. The numerals exclude U+7AE0, so the greedy run is
  the only candidate.
\<close>

definition match_chapter :: "ustring \<Rightarrow> ustring option" where
  "match_chapter head =
     (case head of
        [] \<Rightarrow> None
      | c # rest \<Rightarrow>
          if c = 31532 then
            (case dropWhile is_cjk_numeral rest of
               [] \<Rightarrow> None
             | d # _ \<Rightarrow>
                 if takeWhile is_cjk_numeral rest \<noteq> [] \<and> d = 31456
                 then Some (c # takeWhile is_cjk_numeral rest @ [d]) else None)
          else None)"

text \<open>
  The second alternative, \<^verbatim>\<open>^[\d\.]+\s\<close>: a run of digits and dots, then one whitespace
  character. No decimal digit of the Unicode database is whitespace, so here too the greedy
  run is the only candidate.
\<close>

definition match_numbered :: "pylib \<Rightarrow> ustring \<Rightarrow> ustring option" where
  "match_numbered L head =
     (case dropWhile (\<lambda>c. isdecimal L c \<or> c = 46) head of
        [] \<Rightarrow> None
      | w # _ \<Rightarrow>
          if takeWhile (\<lambda>c. isdecimal L c \<or> c = 46) head \<noteq> [] \<and> isspace w
          then Some (takeWhile (\<lambda>c. isdecimal L c \<or> c = 46) head @ [w]) else None)"

definition extract_title :: "pylib \<Rightarrow> ustring \<Rightarrow> ustring" where
  "extract_title L text =
     (let head = take 50 text
      in case match_chapter head of
           Some m \<Rightarrow> strip m
         | None \<Rightarrow> (case match_numbered L head of Some m \<Rightarrow> strip m | None \<Rightarrow> []))"

text \<open>
  \<^verbatim>\<open>re.match\<close> of a run of non-terminators followed by one terminator, and the anchor
  that the paginated, plain-text and rich-text adapters derive from it.
\<close>

definition first_sent_match :: "ustring \<Rightarrow> ustring option" where
  "first_sent_match chunk_text =
     (case dropWhile (\<lambda>c. \<not> is_terminator c) chunk_text of
        [] \<Rightarrow> None
      | t # _ \<Rightarrow> Some (takeWhile (\<lambda>c. \<not> is_terminator c) chunk_text @ [t]))"

definition anchor :: "ustring \<Rightarrow> ustring" where
  "anchor chunk_text =
     (case first_sent_match chunk_text of Some m \<Rightarrow> m | None \<Rightarrow> take 30 chunk_text)"

section \<open>Records\<close>

text \<open>The dictionary that every adapter appends; \<open>source_url\<close> is a key of text records only.\<close>

record chunk_record =
  doc_id :: ustring
  chunk_id :: ustring
  title :: ustring
  source_url :: "ustring option"
  source :: ustring
  file_type :: ustring
  page_num :: nat
  section_title :: ustring
  content :: ustring
  anchor_text :: ustring
  chunk_len :: nat

text \<open>
  A call into a library that reads the file either raises, with the text of the exception,
  or returns. The second component of an adapter's result is what it printed.
\<close>

datatype 'a attempt = Raised ustring | Returned 'a

type_synonym outcome = "chunk_record list \<times> ustring list"

text \<open>
  \<^verbatim>\<open>file_name.encode('utf-8')\<close> raises a UnicodeEncodeError on a surrogate code point,
  U+D800 to U+DFFF, which is how the walk over the directory hands on the bytes of a file
  name that is not UTF-8. The text kept for the exception is its last part.
\<close>

definition is_surrogate :: "nat \<Rightarrow> bool" where
  "is_surrogate c \<longleftrightarrow> 55296 \<le> c \<and> c \<le> 57343"

definition encodable :: "ustring \<Rightarrow> bool" where
  "encodable s = list_all (\<lambda>c. \<not> is_surrogate c) s"

definition generate_doc_id :: "pylib \<Rightarrow> ustring \<Rightarrow> ustring attempt" where
  "generate_doc_id L fname =
     (if encodable fname then Returned (md5_hex L fname)
      else Raised (u ''surrogates not allowed''))"

text \<open>The chunks of one unit that pass \<^verbatim>\<open>len(chunk_text) < MIN_CHUNK_SIZE: continue\<close>.\<close>

definition kept_chunks :: "config \<Rightarrow> ustring list \<Rightarrow> (nat \<times> ustring) list" where
  "kept_chunks cfg chunks =
     filter (\<lambda>(idx, chunk_text). \<not> length chunk_text < MIN_CHUNK_SIZE cfg) (enumerate 0 chunks)"

section \<open>The paginated-document adapter\<close>

definition unknown_section :: ustring where
  "unknown_section = [26410, 30693, 31456, 33410]"

definition pdf_error :: "ustring \<Rightarrow> ustring \<Rightarrow> ustring" where
  "pdf_error fname e =
     [10060, 32, 35299, 26512, 32, 80, 68, 70, 32, 20986, 38169, 32] @ fname @ u '': '' @ e"

definition pdf_record ::
  "ustring \<Rightarrow> ustring \<Rightarrow> nat \<Rightarrow> ustring \<Rightarrow> nat \<times> ustring \<Rightarrow> chunk_record" where
  "pdf_record fname docid pnum current_section_title ic =
     (case ic of (idx, chunk_text) \<Rightarrow>
        \<lparr> doc_id = docid,
          chunk_id = docid @ u ''_'' @ str_nat pnum @ u ''_'' @ str_nat idx,
          title = fname,
          source_url = None,
          source = fname,
          file_type = u ''pdf'',
          page_num = pnum,
          section_title = current_section_title,
          content = chunk_text,
          anchor_text = anchor chunk_text,
          chunk_len = length chunk_text \<rparr>)"

text \<open>
  A page is represented by what \<^verbatim>\<open>page.crop(bbox).extract_text()\<close> does on it: it raises,
  or returns \<^verbatim>\<open>None\<close> or a text. The loop over the pages carries the index \<open>i\<close>, the
  section title and the results; an exception ends it with the results appended so far.
\<close>

type_synonym page = "ustring option attempt"

fun pdf_pages ::
  "pylib \<Rightarrow> config \<Rightarrow> ustring \<Rightarrow> ustring \<Rightarrow> nat \<Rightarrow> ustring \<Rightarrow> chunk_record list \<Rightarrow> page list
     \<Rightarrow> chunk_record list \<times> ustring option" where
  "pdf_pages L cfg fname docid i current_section_title results [] = (results, None)"
| "pdf_pages L cfg fname docid i current_section_title results (Raised e # pages) =
     (results, Some e)"
| "pdf_pages L cfg fname docid i current_section_title results (Returned None # pages) =
     pdf_pages L cfg fname docid (i + 1) current_section_title results pages"
| "pdf_pages L cfg fname docid i current_section_title results (Returned (Some text) # pages) =
     (if text = [] then pdf_pages L cfg fname docid (i + 1) current_section_title results pages
      else
        let possible_title = extract_title L text;
            section' = (if possible_title \<noteq> [] then possible_title else current_section_title);
            cleaned_text = clean_text_basic L text;
            chunks = semantic_chunking cfg cleaned_text
        in pdf_pages L cfg fname docid (i + 1) section'
             (results @ map (pdf_record fname docid (i + 1) section') (kept_chunks cfg chunks))
             pages)"

definition process_pdf ::
  "pylib \<Rightarrow> config \<Rightarrow> page list attempt \<Rightarrow> ustring \<Rightarrow> ustring \<Rightarrow> outcome" where
  "process_pdf L cfg pdf fname docid =
     (case pdf of
        Raised e \<Rightarrow> ([], [pdf_error fname e])
      | Returned pages \<Rightarrow>
          (case pdf_pages L cfg fname docid 0 unknown_section [] pages of
             (results, None) \<Rightarrow> (results, [])
           | (results, Some e) \<Rightarrow> (results, [pdf_error fname e])))"

section \<open>The tabular adapter\<close>

text \<open>\<^verbatim>\<open>sep.join(parts)\<close>.\<close>

fun join :: "ustring \<Rightarrow> ustring list \<Rightarrow> ustring" where
  "join sep [] = []"
| "join sep [x] = x"
| "join sep (x # y # ys) = x @ sep @ join sep (y # ys)"

text \<open>
  A row of the data frame after \<^verbatim>\<open>fillna('')\<close>: the column names and the cell values, both
  as the strings that \<^verbatim>\<open>str\<close> and the f-string make of them.
\<close>

type_synonym row = "(ustring \<times> ustring) list"

text \<open>
  The data frame as \<^verbatim>\<open>df.iterrows()\<close> yields it: every row with its index label. The
  labels are taken to be natural numbers, as they are under the index that pandas gives a
  frame by default, which numbers the rows from 0; a frame with labels of another kind is
  outside this model.
\<close>

type_synonym table = "(nat \<times> row) list"

definition row_content :: "row \<Rightarrow> ustring" where
  "row_content r =
     join (u '' '') (map (\<lambda>(col_name, val). col_name @ u '':'' @ val)
                      (filter (\<lambda>(col_name, val). strip val \<noteq> []) r))"

definition table_section :: ustring where
  "table_section = [25925, 38556, 26085, 24535, 34920]"

definition excel_error :: "ustring \<Rightarrow> ustring \<Rightarrow> ustring" where
  "excel_error fname e =
     [10060, 32, 35299, 26512, 34920, 26684, 20986, 38169, 32] @ fname @ u '': '' @ e"

definition excel_record :: "ustring \<Rightarrow> ustring \<Rightarrow> nat \<Rightarrow> ustring \<Rightarrow> chunk_record" where
  "excel_record fname docid row_num cleaned_content =
     \<lparr> doc_id = docid,
       chunk_id = docid @ u ''_row_'' @ str_nat row_num,
       title = fname,
       source_url = None,
       source = fname,
       file_type = u ''table'',
       page_num = row_num,
       section_title = table_section,
       content = cleaned_content,
       anchor_text = take 30 cleaned_content,
       chunk_len = length cleaned_content \<rparr>"

text \<open>The body of the loop over \<^verbatim>\<open>df.iterrows()\<close>: what one row appends.\<close>

definition excel_row :: "pylib \<Rightarrow> ustring \<Rightarrow> ustring \<Rightarrow> nat \<times> row \<Rightarrow> chunk_record list" where
  "excel_row L fname docid ir =
     (case ir of (index, r) \<Rightarrow>
        let cleaned_content = clean_text_basic L (row_content r)
        in if cleaned_content = [] then []
           else [excel_record fname docid (index + 1) cleaned_content])"

text \<open>
  The file is read by \<^verbatim>\<open>pd.read_csv\<close> when the name ends in \<^verbatim>\<open>.csv\<close> and by
  \<^verbatim>\<open>pd.read_excel\<close> otherwise; both outcomes are arguments.
\<close>

definition process_excel ::
  "pylib \<Rightarrow> table attempt \<Rightarrow> table attempt \<Rightarrow> ustring \<Rightarrow> ustring \<Rightarrow> outcome" where
  "process_excel L csv excel fname docid =
     (case (if endswith fname (u ''.csv'') then csv else excel) of
        Raised e \<Rightarrow> ([], [excel_error fname e])
      | Returned df \<Rightarrow> (concat (map (excel_row L fname docid) df), []))"

section \<open>The plain-text adapter\<close>

text \<open>\<^verbatim>\<open>str.splitlines()\<close>: the line boundaries, with CR LF as one, and no last empty line.\<close>

definition is_linebreak :: "nat \<Rightarrow> bool" where
  "is_linebreak c \<longleftrightarrow> c \<in> set [10, 11, 12, 13, 28, 29, 30, 133, 8232, 8233]"

fun splitlines :: "ustring \<Rightarrow> ustring \<Rightarrow> ustring list" where
  "splitlines ln [] = (if ln = [] then [] else [ln])"
| "splitlines ln [c] = (if is_linebreak c then [ln] else [ln @ [c]])"
| "splitlines ln (c # d # cs) =
     (if c = 13 \<and> d = 10 then ln # splitlines [] cs
      else if is_linebreak c then ln # splitlines [] (d # cs)
      else splitlines (ln @ [c]) (d # cs))"

text \<open>\<^verbatim>\<open>s.split(":", 1)[1]\<close>: the text after the first colon; an IndexError without one.\<close>

definition after_colon :: "ustring \<Rightarrow> ustring attempt" where
  "after_colon s =
     (case dropWhile (\<lambda>c. c \<noteq> 58) s of
        [] \<Rightarrow> Raised (u ''list index out of range'')
      | _ # rest \<Rightarrow> Returned rest)"

definition unknown_title :: ustring where
  "unknown_title = [26410, 30693, 26631, 39064]"

definition txt_error :: "ustring \<Rightarrow> ustring \<Rightarrow> ustring" where
  "txt_error fname e =
     [10060, 32, 35299, 26512, 32, 84, 88, 84, 32, 20986, 38169, 32] @ fname @ u '': '' @ e"

definition txt_title :: "pylib \<Rightarrow> ustring list \<Rightarrow> ustring attempt" where
  "txt_title L lines =
     (case lines of
        [] \<Rightarrow> Returned unknown_title
      | l0 # _ \<Rightarrow>
          if startswith (lower L l0) (u ''title:'')
          then (case after_colon l0 of
                  Raised e \<Rightarrow> Raised e
                | Returned t \<Rightarrow> Returned (if strip t \<noteq> [] then strip t else l0))
          else Returned l0)"

definition txt_source_url :: "pylib \<Rightarrow> ustring list \<Rightarrow> ustring attempt" where
  "txt_source_url L lines =
     (case find (\<lambda>ln. startswith (lower L ln) (u ''url:'')) (take 12 lines) of
        None \<Rightarrow> Returned []
      | Some ln \<Rightarrow>
          (case after_colon ln of Raised e \<Rightarrow> Raised e | Returned t \<Rightarrow> Returned (strip t)))"

definition txt_body_lines :: "pylib \<Rightarrow> ustring list \<Rightarrow> ustring list" where
  "txt_body_lines L lines =
     filter (\<lambda>ln. \<not> set ln = {61} \<and> \<not> startswith (lower L ln) (u ''url:'')) (drop 1 lines)"

text \<open>The lines that are not blank, stripped, and the text of the body.\<close>

definition txt_lines :: "ustring \<Rightarrow> ustring list" where
  "txt_lines raw_text =
     map strip (filter (\<lambda>ln. strip ln \<noteq> []) (map rstrip (splitlines [] raw_text)))"

definition txt_body_text :: "pylib \<Rightarrow> ustring \<Rightarrow> ustring" where
  "txt_body_text L raw_text =
     (let body_lines = txt_body_lines L (txt_lines raw_text)
      in if body_lines \<noteq> [] then join [10] body_lines else raw_text)"

definition txt_record ::
  "ustring \<Rightarrow> ustring \<Rightarrow> ustring \<Rightarrow> ustring \<Rightarrow> nat \<times> ustring \<Rightarrow> chunk_record" where
  "txt_record fname docid ttl url ic =
     (case ic of (idx, chunk_text) \<Rightarrow>
        \<lparr> doc_id = docid,
          chunk_id = docid @ u ''_txt_'' @ str_nat idx,
          title = ttl,
          source_url = Some url,
          source = fname,
          file_type = u ''txt'',
          page_num = idx + 1,
          section_title = (if ttl \<noteq> [] then take 50 ttl else unknown_title),
          content = chunk_text,
          anchor_text = anchor chunk_text,
          chunk_len = length chunk_text \<rparr>)"

definition process_txt ::
  "pylib \<Rightarrow> config \<Rightarrow> ustring attempt \<Rightarrow> ustring \<Rightarrow> ustring \<Rightarrow> outcome" where
  "process_txt L cfg txt fname docid =
     (case txt of
        Raised e \<Rightarrow> ([], [txt_error fname e])
      | Returned raw_text \<Rightarrow>
          if raw_text = [] then ([], [])
          else
            (case txt_title L (txt_lines raw_text) of
               Raised e \<Rightarrow> ([], [txt_error fname e])
             | Returned ttl \<Rightarrow>
                 (case txt_source_url L (txt_lines raw_text) of
                    Raised e \<Rightarrow> ([], [txt_error fname e])
                  | Returned url \<Rightarrow>
                      (let cleaned_text = clean_text_basic L (txt_body_text L raw_text)
                       in if cleaned_text = [] then ([], [])
                          else (map (txt_record fname docid ttl url)
                                  (kept_chunks cfg (semantic_chunking cfg cleaned_text)),
                                [])))))"

section \<open>The rich-text adapter\<close>

definition docx_error :: "ustring \<Rightarrow> ustring \<Rightarrow> ustring" where
  "docx_error fname e =
     [10060, 32, 35299, 26512, 32, 68, 79, 67, 88, 32, 20986, 38169, 32] @ fname @ u '': '' @ e"

definition docx_skipped :: "ustring \<Rightarrow> ustring" where
  "docx_skipped fname =
     [9888, 65039, 32, 36339, 36807, 32, 68, 79, 67, 88, 65288, 32570, 23569, 20381, 36182, 32]
     @ u ''python-docx'' @ [65289, 65306] @ fname"

definition docx_section :: ustring where
  "docx_section = u ''Word'' @ [25991, 26723]"

definition docx_record :: "ustring \<Rightarrow> ustring \<Rightarrow> nat \<times> ustring \<Rightarrow> chunk_record" where
  "docx_record fname docid ic =
     (case ic of (idx, chunk_text) \<Rightarrow>
        \<lparr> doc_id = docid,
          chunk_id = docid @ u ''_docx_'' @ str_nat idx,
          title = fname,
          source_url = None,
          source = fname,
          file_type = u ''docx'',
          page_num = idx + 1,
          section_title = docx_section,
          content = chunk_text,
          anchor_text = anchor chunk_text,
          chunk_len = length chunk_text \<rparr>)"

text \<open>
  \<open>Document\<close> is \<open>None\<close> when the import of \<^verbatim>\<open>docx\<close> failed, and otherwise the outcome of
  \<^verbatim>\<open>Document(file_path)\<close> as the texts of its paragraphs.
\<close>

definition process_docx ::
  "pylib \<Rightarrow> config \<Rightarrow> ustring list attempt option \<Rightarrow> ustring \<Rightarrow> ustring \<Rightarrow> outcome" where
  "process_docx L cfg Document fname docid =
     (case Document of
        None \<Rightarrow> ([], [docx_skipped fname])
      | Some (Raised e) \<Rightarrow> ([], [docx_error fname e])
      | Some (Returned paragraphs) \<Rightarrow>
          let text = join [10] (filter (\<lambda>p. p \<noteq> [] \<and> strip p \<noteq> []) paragraphs);
              cleaned_text = clean_text_basic L text
          in if cleaned_text = [] then ([], [])
             else (map (docx_record fname docid)
                     (kept_chunks cfg (semantic_chunking cfg cleaned_text)), []))"

section \<open>The run over the files\<close>

text \<open>
  An entry of the walk over the raw-data directory: its name, its path relative to that
  directory with \<^verbatim>\<open>/\<close> as separator, whether it is a directory, and what each reading
  library makes of it.
\<close>

record raw_file =
  fs_name :: ustring
  fs_rel_path :: ustring
  fs_isdir :: bool
  as_pdf :: "page list attempt"
  as_csv :: "table attempt"
  as_excel :: "table attempt"
  as_txt :: "ustring attempt"
  as_docx :: "ustring list attempt option"

text \<open>\<^verbatim>\<open>file_name.lower().split('.')[-1]\<close>: what follows the last dot, or the whole name.\<close>

definition file_ext :: "pylib \<Rightarrow> ustring \<Rightarrow> ustring" where
  "file_ext L fname = rev (takeWhile (\<lambda>c. c \<noteq> 46) (rev (lower L fname)))"

text \<open>The choice of the adapter by the extension, once the document has its identifier.\<close>

definition dispatch :: "pylib \<Rightarrow> config \<Rightarrow> raw_file \<Rightarrow> ustring \<Rightarrow> outcome" where
  "dispatch L cfg f docid =
     (let rel_path = fs_rel_path f;
          ext = file_ext L (fs_name f)
      in if ext = u ''pdf'' then process_pdf L cfg (as_pdf f) rel_path docid
         else if ext \<in> set [u ''xlsx'', u ''xls'', u ''csv'']
              then process_excel L (as_csv f) (as_excel f) rel_path docid
         else if ext = u ''txt'' then process_txt L cfg (as_txt f) rel_path docid
         else if ext = u ''docx'' then process_docx L cfg (as_docx f) rel_path docid
         else ([], []))"

text \<open>
  The body of the loop of \<^verbatim>\<open>main\<close> for one entry: what it adds and what is printed.
  The call of \<^verbatim>\<open>generate_doc_id\<close> is outside every \<^verbatim>\<open>try\<close>: when it raises, the body
  raises.
\<close>

definition process_file :: "pylib \<Rightarrow> config \<Rightarrow> raw_file \<Rightarrow> outcome attempt" where
  "process_file L cfg f =
     (if startswith (fs_name f) (u ''.'') then Returned ([], [])
      else if fs_isdir f then Returned ([], [])
      else (case generate_doc_id L (fs_rel_path f) of
              Raised e \<Rightarrow> Raised e
            | Returned docid \<Rightarrow> Returned (dispatch L cfg f docid)))"

text \<open>
  The loop of \<^verbatim>\<open>main\<close> with its variable \<^verbatim>\<open>all_data\<close>, and beside it the lines that the
  adapters printed. When the loop ends, its result is the list that \<^verbatim>\<open>main\<close> then writes
  out, one record a line. An exception in the body ends the run before anything is written.
\<close>

fun main_loop ::
  "pylib \<Rightarrow> config \<Rightarrow> chunk_record list \<Rightarrow> ustring list \<Rightarrow> raw_file list \<Rightarrow> outcome attempt"
  where
  "main_loop L cfg all_data printed [] = Returned (all_data, printed)"
| "main_loop L cfg all_data printed (f # files) =
     (case process_file L cfg f of
        Raised e \<Rightarrow> Raised e
      | Returned (results, lines) \<Rightarrow>
          main_loop L cfg (all_data @ results) (printed @ lines) files)"

definition main :: "pylib \<Rightarrow> raw_file list \<Rightarrow> outcome attempt" where
  "main L files = main_loop L default_config [] [] files"

text \<open>The records that a run, or the body of its loop, gives: none when it raised.\<close>

definition emitted :: "outcome attempt \<Rightarrow> chunk_record list" where
  "emitted a = (case a of Raised e \<Rightarrow> [] | Returned (results, lines) \<Rightarrow> results)"

definition printed_lines :: "outcome attempt \<Rightarrow> ustring list" where
  "printed_lines a = (case a of Raised e \<Rightarrow> [] | Returned (results, lines) \<Rightarrow> lines)"

section \<open>Where a record comes from\<close>

text \<open>Whether a call raised.\<close>

definition raises :: "'a attempt \<Rightarrow> bool" where
  "raises a = (case a of Raised _ \<Rightarrow> True | Returned _ \<Rightarrow> False)"

text \<open>
  A record \<open>r\<close> of a paginated document stems from the chunk at index \<open>idx\<close> of the page
  at position \<open>k\<close> of \<open>pages\<close>, whose number is \<open>i + k + 1\<close> when the loop started at
  index \<open>i\<close>, and that chunk has the minimum length.
\<close>

definition page_origin ::
  "pylib \<Rightarrow> config \<Rightarrow> ustring \<Rightarrow> ustring \<Rightarrow> nat \<Rightarrow> page list \<Rightarrow> chunk_record \<Rightarrow> bool" where
  "page_origin L cfg fname docid i pages r \<longleftrightarrow>
     (\<exists>k T s idx. k < length pages \<and> pages ! k = Returned (Some T) \<and>
        idx < length (semantic_chunking cfg (clean_text_basic L T)) \<and>
        MIN_CHUNK_SIZE cfg \<le> length (semantic_chunking cfg (clean_text_basic L T) ! idx) \<and>
        r = pdf_record fname docid (i + k + 1) s
              (idx, semantic_chunking cfg (clean_text_basic L T) ! idx))"

section \<open>An instance of the library tables\<close>

text \<open>
  For evaluating the functions on examples: the tables on the code points that the examples
  use. The three sentence terminators and the ideographs U+4E00 to U+9FA5 are printable,
  are not digits and have no case. The digest is a stand-in that spells out the code points
  of its argument.
\<close>

definition example_lib :: pylib where
  "example_lib =
     \<lparr> printable_hi = (\<lambda>c. c = 12290 \<or> c = 65281 \<or> c = 65311 \<or> (19968 \<le> c \<and> c \<le> 40869)),
       decimal_hi = (\<lambda>c. False),
       lower_hi = (\<lambda>c. [c]),
       md5_hex = (\<lambda>s. concat (map str_nat s)) \<rparr>"

text \<open>
  Three page texts of fifty characters each, every one a single sentence: the first and the
  third carry no heading, the second begins with the heading of a first chapter
  (U+7B2C U+4E00 U+7AE0, a space, U+603B U+5219).
\<close>

definition page_plain_a :: ustring where
  "page_plain_a =
     [
       97, 97, 97, 97, 97, 97, 97, 97, 97, 97, 97, 97, 97, 97, 97, 97, 97, 97, 97, 97,
       97, 97, 97, 97, 97, 97, 97, 97, 97, 97, 97, 97, 97, 97, 97, 97, 97, 97, 97, 97,
       97, 97, 97, 97, 97, 97, 97, 97, 97, 12290]"

definition page_chapter :: ustring where
  "page_chapter =
     [
       31532, 19968, 31456, 32, 24635, 21017, 98, 98, 98, 98, 98, 98, 98, 98, 98, 98,
       98, 98, 98, 98, 98, 98, 98, 98, 98, 98, 98, 98, 98, 98, 98, 98, 98, 98, 98, 98,
       98, 98, 98, 98, 98, 98, 98, 98, 98, 98, 98, 98, 98, 12290]"

definition page_plain_c :: ustring where
  "page_plain_c =
     [
       99, 99, 99, 99, 99, 99, 99, 99, 99, 99, 99, 99, 99, 99, 99, 99, 99, 99, 99, 99,
       99, 99, 99, 99, 99, 99, 99, 99, 99, 99, 99, 99, 99, 99, 99, 99, 99, 99, 99, 99,
       99, 99, 99, 99, 99, 99, 99, 99, 99, 12290]"

text \<open>A document of these three pages, and one whose second page cannot be read.\<close>

definition example_pdf :: raw_file where
  "example_pdf =
     \<lparr> fs_name = u ''m.pdf'', fs_rel_path = u ''doc/m.pdf'', fs_isdir = False,
       as_pdf = Returned [Returned (Some page_plain_a), Returned (Some page_chapter),
                          Returned (Some page_plain_c)],
       as_csv = Raised [], as_excel = Raised [], as_txt = Raised [], as_docx = None \<rparr>"

definition broken_pdf :: raw_file where
  "broken_pdf =
     \<lparr> fs_name = u ''b.pdf'', fs_rel_path = u ''doc/b.pdf'', fs_isdir = False,
       as_pdf = Returned [Returned (Some page_plain_a), Raised (u ''bad page''),
                          Returned (Some page_plain_c)],
       as_csv = Raised [], as_excel = Raised [], as_txt = Raised [], as_docx = None \<rparr>"

text \<open>
  A table of one column \<open>a\<close> and two rows: the value \<open>1\<close>, and a value that begins with a
  full stop.
\<close>

definition example_csv :: raw_file where
  "example_csv =
     \<lparr> fs_name = u ''t.csv'', fs_rel_path = u ''t.csv'', fs_isdir = False,
       as_pdf = Raised [],
       as_csv = Returned [(0, [(u ''a'', u ''1'')]), (1, [(u ''a'', [12290, 98])])],
       as_excel = Raised [], as_txt = Raised [], as_docx = None \<rparr>"

text \<open>
  A text file with a title line, a separator line and a line for the address before a body
  of one sentence of fifty characters, and a rich-text file of one such paragraph.
\<close>

definition body_sentence :: ustring where
  "body_sentence =
     [
       100, 100, 100, 100, 100, 100, 100, 100, 100, 100, 100, 100, 100, 100, 100, 100,
       100, 100, 100, 100, 100, 100, 100, 100, 100, 100, 100, 100, 100, 100, 100, 100,
       100, 100, 100, 100, 100, 100, 100, 100, 100, 100, 100, 100, 100, 100, 100, 100,
       100, 12290]"

definition paragraph_sentence :: ustring where
  "paragraph_sentence =
     [
       101, 101, 101, 101, 101, 101, 101, 101, 101, 101, 101, 101, 101, 101, 101, 101,
       101, 101, 101, 101, 101, 101, 101, 101, 101, 101, 101, 101, 101, 101, 101, 101,
       101, 101, 101, 101, 101, 101, 101, 101, 101, 101, 101, 101, 101, 101, 101, 101,
       101, 12290]"

definition example_txt :: raw_file where
  "example_txt =
     \<lparr> fs_name = u ''n.txt'', fs_rel_path = u ''n.txt'', fs_isdir = False,
       as_pdf = Raised [], as_csv = Raised [], as_excel = Raised [],
       as_txt = Returned (u ''T'' @ [10] @ u ''=='' @ [10] @ u ''URL: x'' @ [10] @ body_sentence),
       as_docx = None \<rparr>"

definition example_docx :: raw_file where
  "example_docx =
     \<lparr> fs_name = u ''w.docx'', fs_rel_path = u ''w.docx'', fs_isdir = False,
       as_pdf = Raised [], as_csv = Raised [], as_excel = Raised [], as_txt = Raised [],
       as_docx = Some (Returned [paragraph_sentence]) \<rparr>"

text \<open>
  A page text of forty-nine characters, one sentence, and a document whose first page is this
  text and whose second page has fifty characters.
\<close>

definition page_short :: ustring where
  "page_short =
     [
       97, 97, 97, 97, 97, 97, 97, 97, 97, 97, 97, 97, 97, 97, 97, 97, 97, 97, 97, 97,
       97, 97, 97, 97, 97, 97, 97, 97, 97, 97, 97, 97, 97, 97, 97, 97, 97, 97, 97, 97,
       97, 97, 97, 97, 97, 97, 97, 97, 12290]"

definition short_pdf :: raw_file where
  "short_pdf =
     \<lparr> fs_name = u ''s.pdf'', fs_rel_path = u ''s.pdf'', fs_isdir = False,
       as_pdf = Returned [Returned (Some page_short), Returned (Some page_plain_a)],
       as_csv = Raised [], as_excel = Raised [], as_txt = Raised [], as_docx = None \<rparr>"

text \<open>
  A configuration with small sizes, and three files whose single unit has three sentences
  of six characters, so that the unit gives three chunks.
\<close>

definition small_config :: config where
  "small_config = \<lparr> CHUNK_SIZE = 10, MIN_CHUNK_SIZE = 5, OVERLAP_SENTENCES = 1 \<rparr>"







text \<open>An entry whose name is not UTF-8: the walk hands on its byte D6 as U+DCD6.\<close>

definition unencodable_pdf :: raw_file where
  "unencodable_pdf =
     \<lparr> fs_name = [56534] @ u ''.pdf'', fs_rel_path = [56534] @ u ''.pdf'', fs_isdir = False,
       as_pdf = Returned [Returned (Some page_plain_a)],
       as_csv = Raised [], as_excel = Raised [], as_txt = Raised [], as_docx = None \<rparr>"

section \<open>The sentences that the specification describes\<close>

text \<open>
  Section 4.2 of the specification: a sentence ends right after a full stop, an exclamation
  mark, a question mark or a newline, which is its last character; the text after the last
  of them is a last sentence. This is that segmentation, before any sentence is discarded:
  the first argument is the sentence read so far.
\<close>

fun pieces_from :: "ustring \<Rightarrow> ustring \<Rightarrow> ustring list" where
  "pieces_from sentence [] = (if sentence = [] then [] else [sentence])"
| "pieces_from sentence (c # cs) =
     (if is_delim c then (sentence @ [c]) # pieces_from [] cs
      else pieces_from (sentence @ [c]) cs)"

definition sentence_pieces :: "ustring \<Rightarrow> ustring list" where
  "sentence_pieces T = pieces_from [] T"

text \<open>The chunks of a page: those of its cleaned text, when it has a text.\<close>

definition page_chunks :: "pylib \<Rightarrow> config \<Rightarrow> page \<Rightarrow> ustring list" where
  "page_chunks L cfg p =
     (case p of
        Raised e \<Rightarrow> []
      | Returned None \<Rightarrow> []
      | Returned (Some T) \<Rightarrow> semantic_chunking cfg (clean_text_basic L T))"

text \<open>The chunks of a text file, those of a rich-text file, and the text of a row.\<close>

definition txt_chunks :: "pylib \<Rightarrow> config \<Rightarrow> ustring \<Rightarrow> ustring list" where
  "txt_chunks L cfg raw_text =
     semantic_chunking cfg (clean_text_basic L (txt_body_text L raw_text))"

definition docx_chunks :: "pylib \<Rightarrow> config \<Rightarrow> ustring list \<Rightarrow> ustring list" where
  "docx_chunks L cfg paragraphs =
     semantic_chunking cfg
       (clean_text_basic L (join [10] (filter (\<lambda>p. p \<noteq> [] \<and> strip p \<noteq> []) paragraphs)))"

definition row_text :: "pylib \<Rightarrow> row \<Rightarrow> ustring" where
  "row_text L r = clean_text_basic L (row_content r)"

text \<open>The frame that the tabular adapter reads for a file of a given name.\<close>

definition frame_of :: "table attempt \<Rightarrow> table attempt \<Rightarrow> ustring \<Rightarrow> table attempt" where
  "frame_of csv excel fname = (if endswith fname (u ''.csv'') then csv else excel)"

text \<open>
  An entry that the loop of \<^verbatim>\<open>main\<close> hands to an adapter: it is not hidden, it is not a
  directory, and its relative path has an identifier.
\<close>

definition processed :: "raw_file \<Rightarrow> bool" where
  "processed f \<longleftrightarrow>
     \<not> startswith (fs_name f) (u ''.'') \<and> \<not> fs_isdir f \<and> encodable (fs_rel_path f)"

section \<open>What the sentence splitter keeps\<close>

lemma filter_dropWhile_not:
  "filter (\<lambda>c. \<not> P c) (dropWhile P xs) = filter (\<lambda>c. \<not> P c) xs"
  by (induction xs) auto

lemma filter_strip:
  "filter (\<lambda>c. \<not> isspace c) (strip s) = filter (\<lambda>c. \<not> isspace c) s"
proof -
  have "filter (\<lambda>c. \<not> isspace c) (rstrip t) = filter (\<lambda>c. \<not> isspace c) t" for t
    unfolding rstrip_def by (simp add: filter_dropWhile_not flip: rev_filter)
  then show ?thesis
    by (simp add: strip_def lstrip_def filter_dropWhile_not)
qed

lemma set_strip: "set (strip s) \<subseteq> set s"
  unfolding strip_def rstrip_def lstrip_def
  by (metis set_dropWhileD set_rev subsetI)

lemma concat_re_split: "concat (re_split piece T) = piece @ T"
  by (induction T arbitrary: piece) auto

lemma split_loop_nonspace:
  "filter (\<lambda>c. \<not> isspace c) (concat (split_loop sentences current_sent parts)) =
   filter (\<lambda>c. \<not> isspace c) (concat sentences @ current_sent @ concat parts)"
  by (induction parts arbitrary: sentences current_sent) (auto simp: filter_strip)

lemma split_loop_set:
  "set (concat (split_loop sentences current_sent parts)) \<subseteq>
   set (concat sentences) \<union> set current_sent \<union> set (concat parts)"
proof (induction parts arbitrary: sentences current_sent)
  case Nil
  then show ?case using set_strip by auto
next
  case (Cons p ps)
  show ?case
  proof (cases "match_delim p")
    case True
    have "set (concat (split_loop (sentences @ [strip (current_sent @ p)]) [] ps))
          \<subseteq> set (concat (sentences @ [strip (current_sent @ p)])) \<union> set [] \<union> set (concat ps)"
      by (rule Cons.IH)
    also have "\<dots> \<subseteq> set (concat sentences) \<union> set current_sent \<union> set (concat (p # ps))"
      using set_strip [of "current_sent @ p"] by auto
    finally show ?thesis using True by simp
  next
    case False
    then show ?thesis using Cons.IH [of sentences "current_sent @ p"] by auto
  qed
qed

lemma concat_filter_nonempty: "concat (filter (\<lambda>s. s \<noteq> []) xs) = concat xs"
  by (induction xs) auto

lemma split_nonspace:
  "filter (\<lambda>c. \<not> isspace c) (concat (split_sentences T)) = filter (\<lambda>c. \<not> isspace c) T"
  by (simp add: split_sentences_def concat_filter_nonempty split_loop_nonspace concat_re_split)

lemma split_set: "set (concat (split_sentences T)) \<subseteq> set T"
  using split_loop_set [of "[]" "[]" "re_split [] T"]
  by (simp add: split_sentences_def concat_filter_nonempty concat_re_split del: set_concat)

lemma split_exact:
  assumes "\<forall>c\<in>set T. \<not> isspace c"
  shows "concat (split_sentences T) = T"
proof -
  have "\<forall>c\<in>set (concat (split_sentences T)). \<not> isspace c"
    using assms split_set by blast
  then have "filter (\<lambda>c. \<not> isspace c) (concat (split_sentences T)) = concat (split_sentences T)"
    by (simp only: filter_True)
  moreover have "filter (\<lambda>c. \<not> isspace c) T = T"
    using assms by simp
  ultimately show ?thesis
    using split_nonspace [of T] by simp
qed

lemma no_delim_no_match: "\<forall>c\<in>set piece. \<not> is_delim c \<Longrightarrow> \<not> match_delim piece"
  by (cases piece) (simp_all add: match_delim_def)

lemma match_delim_single: "is_delim c \<Longrightarrow> match_delim [c]"
  by (simp add: match_delim_def)

lemma split_loop_pieces:
  assumes "\<forall>c\<in>set piece. \<not> is_delim c"
  shows "split_loop sentences [] (re_split piece T) =
           sentences @ map strip (pieces_from piece T)"
  using assms
proof (induction T arbitrary: piece sentences)
  case Nil
  then show ?case
    using no_delim_no_match [of piece] by simp
next
  case (Cons c cs)
  show ?case
  proof (cases "is_delim c")
    case True
    have "split_loop sentences [] (re_split piece (c # cs)) =
          split_loop (sentences @ [strip (piece @ [c])]) [] (re_split [] cs)"
      using True no_delim_no_match [OF Cons.prems] match_delim_single [OF True] by simp
    also have "\<dots> = (sentences @ [strip (piece @ [c])]) @ map strip (pieces_from [] cs)"
      by (rule Cons.IH) simp
    finally show ?thesis
      using True by simp
  next
    case False
    have "split_loop sentences [] (re_split (piece @ [c]) cs) =
          sentences @ map strip (pieces_from (piece @ [c]) cs)"
      by (rule Cons.IH) (use False Cons.prems in auto)
    then show ?thesis
      using False by simp
  qed
qed

lemma split_sentences_pieces:
  "split_sentences T = filter (\<lambda>s. s \<noteq> []) (map strip (sentence_pieces T))"
  using split_loop_pieces [of "[]" "[]" T]
  by (simp add: split_sentences_def sentence_pieces_def)

lemma concat_pieces_from: "concat (pieces_from sentence T) = sentence @ T"
  by (induction T arbitrary: sentence) auto

lemma pieces_from_nonempty: "[] \<notin> set (pieces_from sentence T)"
  by (induction T arbitrary: sentence) auto

lemma pieces_from_delims:
  assumes "\<forall>c\<in>set sentence. \<not> is_delim c" and "p \<in> set (pieces_from sentence T)"
  shows "\<forall>c\<in>set (butlast p). \<not> is_delim c"
  using assms
proof (induction T arbitrary: sentence)
  case Nil
  from Nil.prems(2) have "p = sentence"
    by (simp split: if_splits)
  then show ?case
    using Nil.prems(1) by (metis in_set_butlastD)
next
  case (Cons c cs)
  show ?case
  proof (cases "is_delim c")
    case True
    with Cons.prems(2) consider "p = sentence @ [c]" | "p \<in> set (pieces_from [] cs)"
      by auto
    then show ?thesis
    proof cases
      case 1
      then show ?thesis using Cons.prems(1) by simp
    next
      case 2
      have "\<forall>x\<in>set []. \<not> is_delim x" by simp
      then show ?thesis using 2 by (rule Cons.IH)
    qed
  next
    case False
    have "\<forall>x\<in>set (sentence @ [c]). \<not> is_delim x"
      using False Cons.prems(1) by simp
    moreover have "p \<in> set (pieces_from (sentence @ [c]) cs)"
      using False Cons.prems(2) by simp
    ultimately show ?thesis by (rule Cons.IH)
  qed
qed

lemma pieces_from_ends:
  assumes "p \<in> set (butlast (pieces_from sentence T))"
  shows "is_delim (last p)"
  using assms
proof (induction T arbitrary: sentence)
  case Nil
  then show ?case by (simp split: if_splits)
next
  case (Cons c cs)
  show ?case
  proof (cases "is_delim c")
    case True
    with Cons.prems consider "p = sentence @ [c]" | "p \<in> set (butlast (pieces_from [] cs))"
      by (auto split: if_splits)
    then show ?thesis
    proof cases
      case 1
      then show ?thesis using True by simp
    next
      case 2
      then show ?thesis by (rule Cons.IH)
    qed
  next
    case False
    then show ?thesis
      using Cons.prems Cons.IH [of "sentence @ [c]"] by simp
  qed
qed

text \<open>What holds of every cleaned text: its only whitespace is the space, so it has no newline.\<close>

lemma sub_spaces_space: "c \<in> set (sub_spaces T) \<Longrightarrow> isspace c \<Longrightarrow> c = 32"
  by (induction T rule: sub_spaces.induct) (auto split: if_splits)

lemma clean_text_basic_space:
  assumes "c \<in> set (clean_text_basic L T)" and "isspace c"
  shows "c = 32"
proof -
  from assms(1) have "c \<in> set (strip (filter (isprintable L) (sub_spaces T)))"
    by (simp add: clean_text_basic_def split: if_splits)
  then have "c \<in> set (filter (isprintable L) (sub_spaces T))"
    using set_strip by blast
  then have "c \<in> set (sub_spaces T)"
    by simp
  then show ?thesis
    using assms(2) by (rule sub_spaces_space)
qed

lemma clean_text_basic_no_newline: "10 \<notin> set (clean_text_basic L T)"
  using clean_text_basic_space [of 10 L T] by (auto simp: isspace_def)

text \<open>A cleaned text has no whitespace at its end, and its pieces neither.\<close>

lemma rstrip_last: "rstrip s \<noteq> [] \<Longrightarrow> \<not> isspace (last (rstrip s))"
proof -
  assume "rstrip s \<noteq> []"
  then have ne: "dropWhile isspace (rev s) \<noteq> []"
    by (simp add: rstrip_def)
  have "last (rstrip s) = hd (dropWhile isspace (rev s))"
    using ne by (simp add: rstrip_def last_rev)
  then show ?thesis
    using hd_dropWhile [OF ne] by simp
qed

lemma rstrip_id: "s = [] \<or> \<not> isspace (last s) \<Longrightarrow> rstrip s = s"
proof (cases "s = []")
  case True
  then show ?thesis by (simp add: rstrip_def)
next
  case False
  assume "s = [] \<or> \<not> isspace (last s)"
  with False have "\<not> isspace (hd (rev s))"
    by (simp add: hd_rev)
  moreover have "rev s \<noteq> []" using False by simp
  ultimately have "dropWhile isspace (rev s) = rev s"
    by (cases "rev s") auto
  then show ?thesis by (simp add: rstrip_def)
qed

lemma strip_is_lstrip:
  assumes "p \<noteq> []" and "\<not> isspace (last p)"
  shows "strip p = lstrip p"
proof -
  have "lstrip p = [] \<or> \<not> isspace (last (lstrip p))"
  proof (cases "lstrip p = []")
    case False
    then have "last (lstrip p) = last p"
      unfolding lstrip_def
      by (metis takeWhile_dropWhile_id last_appendR)
    then show ?thesis using assms(2) by simp
  qed simp
  then show ?thesis
    unfolding strip_def by (rule rstrip_id)
qed

lemma clean_text_basic_last:
  "clean_text_basic L X = [] \<or> \<not> isspace (last (clean_text_basic L X))"
  using rstrip_last [of "lstrip (filter (isprintable L) (sub_spaces X))"]
  by (auto simp: clean_text_basic_def strip_def)

lemma terminator_not_space: "is_terminator c \<Longrightarrow> \<not> isspace c"
  by (auto simp: is_terminator_def isspace_def)

lemma cleaned_pieces_end:
  assumes "T = clean_text_basic L X" and "p \<in> set (sentence_pieces T)"
  shows "\<not> isspace (last p)"
proof -
  let ?ps = "sentence_pieces T"
  have ne: "p \<noteq> []"
    using assms(2) pieces_from_nonempty [of "[]" T] by (auto simp: sentence_pieces_def)
  have cat: "concat ?ps = T"
    by (simp add: sentence_pieces_def concat_pieces_from)
  have ps: "?ps \<noteq> []" using assms(2) by auto
  then have split: "?ps = butlast ?ps @ [last ?ps]" by simp
  from assms(2) split consider "p \<in> set (butlast ?ps)" | "p = last ?ps"
    by (metis Un_iff empty_iff empty_set set_ConsD set_append)
  then show ?thesis
  proof cases
    case 1
    then have d: "is_delim (last p)"
      unfolding sentence_pieces_def by (rule pieces_from_ends)
    have "last p \<in> set T"
      using ne assms(2) cat by (metis last_in_set UN_I set_concat)
    then have "last p \<noteq> 10"
      using assms(1) clean_text_basic_no_newline by metis
    with d have "is_terminator (last p)"
      by (simp add: is_delim_def)
    then show ?thesis by (rule terminator_not_space)
  next
    case 2
    have "T = concat (butlast ?ps) @ p"
      using split cat 2 by (metis concat.simps(1,2) concat_append append_Nil2)
    then obtain pre where "T = pre @ p" ..
    then have l: "last T = last p" and "T \<noteq> []"
      using ne by simp_all
    then show ?thesis
      using clean_text_basic_last [of L X] assms(1) by auto
  qed
qed

lemma cleaned_split_lstrip:
  assumes "T = clean_text_basic L X"
  shows "concat (split_sentences T) = concat (map lstrip (sentence_pieces T))"
proof -
  have "map strip (sentence_pieces T) = map lstrip (sentence_pieces T)"
  proof (rule map_cong [OF refl])
    fix p assume p: "p \<in> set (sentence_pieces T)"
    then have "p \<noteq> []"
      using pieces_from_nonempty [of "[]" T] by (auto simp: sentence_pieces_def)
    moreover have "\<not> isspace (last p)"
      using assms p by (rule cleaned_pieces_end)
    ultimately show "strip p = lstrip p" by (rule strip_is_lstrip)
  qed
  then show ?thesis
    by (simp only: split_sentences_pieces concat_filter_nonempty)
qed

text \<open>
  C2, as the script has it. The sentences returned are the pieces of the segmentation of
  \<open>T\<close> at the delimiters, each piece stripped, the empty ones left out. The pieces
  concatenate to \<open>T\<close> exactly; each is not empty, has no delimiter before its last
  character, and all but the last end in a delimiter. So the concatenation of the sentences
  is \<open>T\<close> without the whitespace at the two ends of each piece. In a cleaned text only the
  whitespace at the start of a piece is lost, that is the spaces that directly follow a
  terminator. Whitespace inside a sentence is kept, every character that is not whitespace
  is kept once and in order, and a text without whitespace is reproduced exactly.
\<close>

theorem split_sentences_strips_pieces:
  "split_sentences T = filter (\<lambda>s. s \<noteq> []) (map strip (sentence_pieces T)) \<and>
   concat (sentence_pieces T) = T \<and>
   (\<forall>p\<in>set (sentence_pieces T). p \<noteq> [] \<and> (\<forall>c\<in>set (butlast p). \<not> is_delim c)) \<and>
   (\<forall>p\<in>set (butlast (sentence_pieces T)). is_delim (last p)) \<and>
   (T = clean_text_basic L X \<longrightarrow>
      concat (split_sentences T) = concat (map lstrip (sentence_pieces T))) \<and>
   filter (\<lambda>c. \<not> isspace c) (concat (split_sentences T)) = filter (\<lambda>c. \<not> isspace c) T \<and>
   ((\<forall>c\<in>set T. \<not> isspace c) \<longrightarrow> concat (split_sentences T) = T)"
proof (intro conjI ballI impI)
  show "split_sentences T = filter (\<lambda>s. s \<noteq> []) (map strip (sentence_pieces T))"
    by (rule split_sentences_pieces)
  show "concat (sentence_pieces T) = T"
    by (simp add: sentence_pieces_def concat_pieces_from)
  show "p \<noteq> []" if "p \<in> set (sentence_pieces T)" for p
    using that pieces_from_nonempty [of "[]" T] by (auto simp: sentence_pieces_def)
  show "\<not> is_delim c" if "p \<in> set (sentence_pieces T)" "c \<in> set (butlast p)" for p c
    using that pieces_from_delims [of "[]" p T] by (simp add: sentence_pieces_def)
  show "is_delim (last p)" if "p \<in> set (butlast (sentence_pieces T))" for p
    using that unfolding sentence_pieces_def by (rule pieces_from_ends)
  show "concat (split_sentences T) = concat (map lstrip (sentence_pieces T))"
    if "T = clean_text_basic L X"
    using that by (rule cleaned_split_lstrip)
  show "filter (\<lambda>c. \<not> isspace c) (concat (split_sentences T)) = filter (\<lambda>c. \<not> isspace c) T"
    by (rule split_nonspace)
  show "concat (split_sentences T) = T" if "\<forall>c\<in>set T. \<not> isspace c"
    using that by (rule split_exact)
qed

theorem split_sentences_strips_pieces_witness:
  "sentence_pieces [97, 12290, 32, 98, 32, 99] = [[97, 12290], [32, 98, 32, 99]] \<and>
   [97, 12290, 32, 98, 32, 99] = clean_text_basic example_lib [97, 12290, 32, 98, 32, 99] \<and>
   concat (split_sentences [97, 12290, 32, 98, 32, 99]) =
     concat (map lstrip (sentence_pieces [97, 12290, 32, 98, 32, 99])) \<and>
   concat (map lstrip (sentence_pieces [97, 12290, 32, 98, 32, 99])) =
     [97, 12290, 98, 32, 99] \<and>
   list_all (\<lambda>c. \<not> isspace c) [97, 12290, 98, 65281] \<and>
   concat (split_sentences [97, 12290, 98, 65281]) = [97, 12290, 98, 65281]"
proof -
  have c: "[97, 12290, 32, 98, 32, 99] = clean_text_basic example_lib [97, 12290, 32, 98, 32, 99]"
    by (simp add: clean_text_basic_def example_lib_def isprintable_def strip_def lstrip_def
        rstrip_def isspace_def)
  have p: "sentence_pieces [97, 12290, 32, 98, 32, 99] = [[97, 12290], [32, 98, 32, 99]]"
    by (simp add: sentence_pieces_def is_delim_def is_terminator_def)
  have l: "concat (map lstrip [[97, 12290], [32, 98, 32, 99]]) = [97, 12290, 98, 32, 99]"
    by (simp add: lstrip_def isspace_def)
  have n: "\<forall>c\<in>set [97, 12290, 98, 65281]. \<not> isspace c"
    by (simp add: isspace_def)
  from split_sentences_strips_pieces [of "[97, 12290, 32, 98, 32, 99]" example_lib
      "[97, 12290, 32, 98, 32, 99]"] c
  have "concat (split_sentences [97, 12290, 32, 98, 32, 99]) =
        concat (map lstrip (sentence_pieces [97, 12290, 32, 98, 32, 99]))"
    by blast
  moreover from split_sentences_strips_pieces [of "[97, 12290, 98, 65281]"] n
  have "concat (split_sentences [97, 12290, 98, 65281]) = [97, 12290, 98, 65281]"
    by blast
  ultimately show ?thesis
    using c p l n unfolding list_all_iff by simp
qed

text \<open>
  The text of four characters \<open>a\<close>, U+3002, space, \<open>b\<close> is left as it is by the cleaning,
  and the space after the full stop is missing from the concatenation of its sentences.
\<close>

theorem split_sentences_lossless_counterexample:
  "clean_text_basic example_lib [97, 12290, 32, 98] = [97, 12290, 32, 98] \<and>
   concat (split_sentences [97, 12290, 32, 98]) = [97, 12290, 98] \<and>
   concat (split_sentences [97, 12290, 32, 98]) \<noteq> [97, 12290, 32, 98]"
  by (simp add: clean_text_basic_def example_lib_def isprintable_def split_sentences_def
      match_delim_def is_delim_def is_terminator_def strip_def lstrip_def rstrip_def isspace_def)

section \<open>The chunk assembler on three sentences\<close>

text \<open>
  C3. With a chunk size of 10 and an overlap of one sentence, three sentences of six
  characters each give three chunks: the first sentence, the first two, the last two. Each
  chunk after the first begins with the sentence that ends the chunk before it.
\<close>

theorem assemble_three_sentences:
  assumes "length s1 = 6" and "length s2 = 6" and "length s3 = 6"
    and "CHUNK_SIZE cfg = 10" and "OVERLAP_SENTENCES cfg = 1"
  shows "assemble cfg [s1, s2, s3] = [s1, s1 @ s2, s2 @ s3]"
  using assms by (simp add: assemble_def overlap_data_def)

theorem assemble_three_sentences_witness:
  "assemble \<lparr> CHUNK_SIZE = 10, MIN_CHUNK_SIZE = 50, OVERLAP_SENTENCES = 1 \<rparr>
     [[97, 98, 99, 100, 101, 12290], [102, 103, 104, 105, 106, 12290],
      [107, 108, 109, 110, 111, 12290]] =
   [[97, 98, 99, 100, 101, 12290],
    [97, 98, 99, 100, 101, 12290, 102, 103, 104, 105, 106, 12290],
    [102, 103, 104, 105, 106, 12290, 107, 108, 109, 110, 111, 12290]]"
  using assemble_three_sentences
    [of "[97, 98, 99, 100, 101, 12290]" "[102, 103, 104, 105, 106, 12290]"
        "[107, 108, 109, 110, 111, 12290]"
        "\<lparr> CHUNK_SIZE = 10, MIN_CHUNK_SIZE = 50, OVERLAP_SENTENCES = 1 \<rparr>"]
  by simp

section \<open>Cleaning can leave two spaces in a row\<close>

text \<open>
  C10. The whitespace runs are replaced before the characters that are not printable are
  removed. In \<open>a\<close>, space, U+0000, space, \<open>b\<close> the two spaces are separate runs; removing
  the control character between them leaves them next to each other.
\<close>

theorem clean_text_basic_double_space:
  "clean_text_basic L [97, 32, 0, 32, 98] = [97, 32, 32, 98]"
  by (simp add: clean_text_basic_def isspace_def isprintable_def strip_def lstrip_def rstrip_def)

section \<open>The loops of the adapters\<close>

lemma kept_chunks_iff:
  "(idx, c) \<in> set (kept_chunks cfg chunks) \<longleftrightarrow>
     idx < length chunks \<and> chunks ! idx = c \<and> MIN_CHUNK_SIZE cfg \<le> length c"
  by (auto simp: kept_chunks_def in_set_enumerate_eq)

lemma map_snd_kept_chunks:
  "map snd (kept_chunks cfg chunks) = filter (\<lambda>c. MIN_CHUNK_SIZE cfg \<le> length c) chunks"
proof -
  have "kept_chunks cfg chunks =
        filter ((\<lambda>c. MIN_CHUNK_SIZE cfg \<le> length c) \<circ> snd) (enumerate 0 chunks)"
    by (simp add: kept_chunks_def comp_def case_prod_unfold not_less)
  then show ?thesis
    by (simp add: filter_map [symmetric] del: o_apply)
qed

lemma pdf_pages_acc:
  "pdf_pages L cfg fname docid i sec results pages =
     (results @ fst (pdf_pages L cfg fname docid i sec [] pages),
      snd (pdf_pages L cfg fname docid i sec [] pages))"
proof (induction pages arbitrary: i sec results)
  case Nil
  show ?case by simp
next
  case (Cons p pages)
  note IH = Cons.IH
  show ?case
  proof (cases p)
    case (Raised e)
    then show ?thesis by simp
  next
    case (Returned t)
    show ?thesis
    proof (cases t)
      case None
      then show ?thesis using Returned IH [of "i + 1" sec results] by simp
    next
      case (Some T)
      show ?thesis
      proof (cases "T = []")
        case True
        then show ?thesis using Returned Some IH [of "i + 1" sec results] by simp
      next
        case False
        let ?s = "if extract_title L T \<noteq> [] then extract_title L T else sec"
        let ?new = "map (pdf_record fname docid (i + 1) ?s)
                      (kept_chunks cfg (semantic_chunking cfg (clean_text_basic L T)))"
        have a: "pdf_pages L cfg fname docid i sec results (p # pages) =
                 pdf_pages L cfg fname docid (i + 1) ?s (results @ ?new) pages"
          using False Returned Some by (simp add: Let_def)
        have b: "pdf_pages L cfg fname docid i sec [] (p # pages) =
                 pdf_pages L cfg fname docid (i + 1) ?s ?new pages"
          using False Returned Some by (simp add: Let_def)
        show ?thesis
          unfolding a b
          using IH [of "i + 1" ?s "results @ ?new"] IH [of "i + 1" ?s ?new] by simp
      qed
    qed
  qed
qed

lemma pdf_pages_no_raise:
  "list_all (\<lambda>p. \<not> raises p) pages \<Longrightarrow> snd (pdf_pages L cfg fname docid i sec results pages) = None"
  by (induction L cfg fname docid i sec results pages rule: pdf_pages.induct)
     (auto simp: raises_def Let_def)

lemma pdf_pages_raise:
  "list_all (\<lambda>p. \<not> raises p) ps \<Longrightarrow>
   pdf_pages L cfg fname docid i sec results (ps @ Raised e # qs) =
     (fst (pdf_pages L cfg fname docid i sec results ps), Some e)"
  by (induction L cfg fname docid i sec results ps rule: pdf_pages.induct)
     (auto simp: raises_def Let_def)

lemma page_origin_Cons:
  "page_origin L cfg fname docid (i + 1) pages r \<Longrightarrow> page_origin L cfg fname docid i (p # pages) r"
  unfolding page_origin_def
proof (elim exE conjE)
  fix k T s idx
  assume "k < length pages" "pages ! k = Returned (Some T)"
    "idx < length (semantic_chunking cfg (clean_text_basic L T))"
    "MIN_CHUNK_SIZE cfg \<le> length (semantic_chunking cfg (clean_text_basic L T) ! idx)"
    "r = pdf_record fname docid (i + 1 + k + 1) s
              (idx, semantic_chunking cfg (clean_text_basic L T) ! idx)"
  then have "Suc k < length (p # pages) \<and> (p # pages) ! Suc k = Returned (Some T) \<and>
        idx < length (semantic_chunking cfg (clean_text_basic L T)) \<and>
        MIN_CHUNK_SIZE cfg \<le> length (semantic_chunking cfg (clean_text_basic L T) ! idx) \<and>
        r = pdf_record fname docid (i + Suc k + 1) s
              (idx, semantic_chunking cfg (clean_text_basic L T) ! idx)"
    by simp
  then show "\<exists>k T s idx. k < length (p # pages) \<and> (p # pages) ! k = Returned (Some T) \<and>
        idx < length (semantic_chunking cfg (clean_text_basic L T)) \<and>
        MIN_CHUNK_SIZE cfg \<le> length (semantic_chunking cfg (clean_text_basic L T) ! idx) \<and>
        r = pdf_record fname docid (i + k + 1) s
              (idx, semantic_chunking cfg (clean_text_basic L T) ! idx)"
    by blast
qed

lemma page_origin_here:
  assumes "ic \<in> set (kept_chunks cfg (semantic_chunking cfg (clean_text_basic L T)))"
  shows "page_origin L cfg fname docid i (Returned (Some T) # pages)
           (pdf_record fname docid (i + 1) s ic)"
proof -
  obtain idx c where ic: "ic = (idx, c)" by (cases ic)
  from assms have "idx < length (semantic_chunking cfg (clean_text_basic L T))"
    and "semantic_chunking cfg (clean_text_basic L T) ! idx = c"
    and "MIN_CHUNK_SIZE cfg \<le> length c"
    unfolding ic kept_chunks_iff by simp_all
  then have "0 < length (Returned (Some T) # pages) \<and>
        (Returned (Some T) # pages) ! 0 = Returned (Some T) \<and>
        idx < length (semantic_chunking cfg (clean_text_basic L T)) \<and>
        MIN_CHUNK_SIZE cfg \<le> length (semantic_chunking cfg (clean_text_basic L T) ! idx) \<and>
        pdf_record fname docid (i + 1) s ic = pdf_record fname docid (i + 0 + 1) s
              (idx, semantic_chunking cfg (clean_text_basic L T) ! idx)"
    using ic by simp
  then show ?thesis unfolding page_origin_def by blast
qed

lemma pdf_pages_origin:
  "r \<in> set (fst (pdf_pages L cfg fname docid i sec [] pages)) \<Longrightarrow>
   page_origin L cfg fname docid i pages r"
proof (induction pages arbitrary: i sec)
  case Nil
  then show ?case by simp
next
  case (Cons p pages)
  show ?case
  proof (cases p)
    case (Raised e)
    then show ?thesis using Cons.prems by simp
  next
    case (Returned t)
    show ?thesis
    proof (cases t)
      case None
      then show ?thesis
        using Returned Cons.prems Cons.IH [of "i + 1" sec] page_origin_Cons by simp
    next
      case (Some T)
      show ?thesis
      proof (cases "T = []")
        case True
        then show ?thesis
          using Returned Some Cons.prems Cons.IH [of "i + 1" sec] page_origin_Cons by simp
      next
        case False
        let ?s = "if extract_title L T \<noteq> [] then extract_title L T else sec"
        let ?kept = "kept_chunks cfg (semantic_chunking cfg (clean_text_basic L T))"
        have "pdf_pages L cfg fname docid i sec [] (p # pages) =
              pdf_pages L cfg fname docid (i + 1) ?s (map (pdf_record fname docid (i + 1) ?s) ?kept) pages"
          using False Returned Some by (simp add: Let_def)
        then have "fst (pdf_pages L cfg fname docid i sec [] (p # pages)) =
              map (pdf_record fname docid (i + 1) ?s) ?kept @
              fst (pdf_pages L cfg fname docid (i + 1) ?s [] pages)"
          using pdf_pages_acc [of L cfg fname docid "i + 1" ?s "map (pdf_record fname docid (i + 1) ?s) ?kept" pages]
          by simp
        with Cons.prems
        consider (here) "r \<in> pdf_record fname docid (i + 1) ?s ` set ?kept"
          | (later) "r \<in> set (fst (pdf_pages L cfg fname docid (i + 1) ?s [] pages))"
          by auto
        then show ?thesis
        proof cases
          case here
          then show ?thesis
            using page_origin_here [of _ cfg L T fname docid i pages ?s] Returned Some by blast
        next
          case later
          then show ?thesis
            using Cons.IH [of "i + 1" ?s] page_origin_Cons by blast
        qed
      qed
    qed
  qed
qed


lemma process_pdf_origin:
  assumes "r \<in> set (fst (process_pdf L cfg pdf fname docid))"
  shows "\<exists>pages. pdf = Returned pages \<and> page_origin L cfg fname docid 0 pages r"
proof (cases pdf)
  case (Raised e)
  then show ?thesis using assms by (simp add: process_pdf_def)
next
  case (Returned pages)
  then have "fst (process_pdf L cfg pdf fname docid) =
             fst (pdf_pages L cfg fname docid 0 unknown_section [] pages)"
    by (simp add: process_pdf_def split: prod.splits option.splits)
  then show ?thesis using assms Returned pdf_pages_origin by simp
qed

lemma kept_record_origin:
  assumes "r \<in> set (map mk (kept_chunks cfg chunks))"
  shows "\<exists>idx. idx < length chunks \<and> MIN_CHUNK_SIZE cfg \<le> length (chunks ! idx) \<and>
           r = mk (idx, chunks ! idx)"
proof -
  from assms obtain ic where "ic \<in> set (kept_chunks cfg chunks)" and r: "r = mk ic"
    by auto
  moreover obtain idx c where ic: "ic = (idx, c)" by (cases ic)
  ultimately have "idx < length chunks \<and> chunks ! idx = c \<and> MIN_CHUNK_SIZE cfg \<le> length c"
    by (simp add: kept_chunks_iff)
  then show ?thesis using r ic by blast
qed

lemma process_txt_shape:
  "fst (process_txt L cfg raw fname docid) = [] \<or>
   (\<exists>raw_text ttl url. raw = Returned raw_text \<and>
      fst (process_txt L cfg raw fname docid) =
        map (txt_record fname docid ttl url) (kept_chunks cfg (txt_chunks L cfg raw_text)))"
  by (auto simp: process_txt_def txt_chunks_def Let_def split: attempt.splits)

lemma process_txt_origin:
  assumes "r \<in> set (fst (process_txt L cfg raw fname docid))"
  shows "\<exists>raw_text ttl url idx. raw = Returned raw_text \<and>
           idx < length (txt_chunks L cfg raw_text) \<and>
           MIN_CHUNK_SIZE cfg \<le> length (txt_chunks L cfg raw_text ! idx) \<and>
           r = txt_record fname docid ttl url (idx, txt_chunks L cfg raw_text ! idx)"
proof -
  from assms have "fst (process_txt L cfg raw fname docid) \<noteq> []" by auto
  with process_txt_shape [of L cfg raw fname docid]
  obtain raw_text ttl url where raw: "raw = Returned raw_text"
    and "fst (process_txt L cfg raw fname docid) =
           map (txt_record fname docid ttl url) (kept_chunks cfg (txt_chunks L cfg raw_text))"
    by blast
  with assms have "r \<in> set (map (txt_record fname docid ttl url)
                              (kept_chunks cfg (txt_chunks L cfg raw_text)))"
    by simp
  from kept_record_origin [OF this] raw show ?thesis by blast
qed

lemma process_docx_shape:
  "fst (process_docx L cfg Document fname docid) = [] \<or>
   (\<exists>paragraphs. Document = Some (Returned paragraphs) \<and>
      fst (process_docx L cfg Document fname docid) =
        map (docx_record fname docid) (kept_chunks cfg (docx_chunks L cfg paragraphs)))"
  by (auto simp: process_docx_def docx_chunks_def Let_def split: attempt.splits option.splits)

lemma process_docx_origin:
  assumes "r \<in> set (fst (process_docx L cfg Document fname docid))"
  shows "\<exists>paragraphs idx. Document = Some (Returned paragraphs) \<and>
           idx < length (docx_chunks L cfg paragraphs) \<and>
           MIN_CHUNK_SIZE cfg \<le> length (docx_chunks L cfg paragraphs ! idx) \<and>
           r = docx_record fname docid (idx, docx_chunks L cfg paragraphs ! idx)"
proof -
  from assms have "fst (process_docx L cfg Document fname docid) \<noteq> []" by auto
  with process_docx_shape [of L cfg Document fname docid]
  obtain paragraphs where d: "Document = Some (Returned paragraphs)"
    and "fst (process_docx L cfg Document fname docid) =
           map (docx_record fname docid) (kept_chunks cfg (docx_chunks L cfg paragraphs))"
    by blast
  with assms have "r \<in> set (map (docx_record fname docid)
                              (kept_chunks cfg (docx_chunks L cfg paragraphs)))"
    by simp
  from kept_record_origin [OF this] d show ?thesis by blast
qed

lemma excel_rows_origin:
  assumes "r \<in> set (concat (map (excel_row L fname docid) df))"
  shows "\<exists>k. k < length df \<and> row_text L (snd (df ! k)) \<noteq> [] \<and>
           r = excel_record fname docid (fst (df ! k) + 1) (row_text L (snd (df ! k)))"
proof -
  from assms obtain ir where ir: "ir \<in> set df" and r: "r \<in> set (excel_row L fname docid ir)"
    by auto
  from ir obtain k where k: "k < length df" "df ! k = ir"
    by (auto simp: in_set_conv_nth)
  obtain index rw where p: "ir = (index, rw)" by (cases ir)
  from r have "row_text L rw \<noteq> [] \<and> r = excel_record fname docid (index + 1) (row_text L rw)"
    by (auto simp: p excel_row_def row_text_def Let_def split: if_splits)
  then show ?thesis using k p by auto
qed

lemma process_excel_origin:
  assumes "r \<in> set (fst (process_excel L csv excel fname docid))"
  shows "\<exists>df k. frame_of csv excel fname = Returned df \<and> k < length df \<and>
           row_text L (snd (df ! k)) \<noteq> [] \<and>
           r = excel_record fname docid (fst (df ! k) + 1) (row_text L (snd (df ! k)))"
proof (cases "frame_of csv excel fname")
  case (Raised e)
  then show ?thesis
    using assms by (simp add: process_excel_def frame_of_def)
next
  case (Returned df)
  then have "fst (process_excel L csv excel fname docid) =
             concat (map (excel_row L fname docid) df)"
    by (simp add: process_excel_def frame_of_def)
  with assms excel_rows_origin [of r L fname docid df] Returned show ?thesis
    by auto
qed

section \<open>The contents that an adapter emits\<close>

lemma semantic_chunking_Nil: "semantic_chunking cfg [] = []"
  by (simp add: semantic_chunking_def assemble_def split_sentences_def match_delim_def)

lemma content_pdf_record: "content (pdf_record fname docid n s ic) = snd ic"
  by (simp add: pdf_record_def case_prod_unfold)

lemma content_txt_record: "content (txt_record fname docid ttl url ic) = snd ic"
  by (simp add: txt_record_def case_prod_unfold)

lemma content_docx_record: "content (docx_record fname docid ic) = snd ic"
  by (simp add: docx_record_def case_prod_unfold)

lemma content_pdf_records:
  "map content (map (pdf_record fname docid n s) kept) = map snd kept"
  by (simp add: content_pdf_record)

lemma content_txt_records:
  "map content (map (txt_record fname docid ttl url) kept) = map snd kept"
  by (simp add: content_txt_record)

lemma content_docx_records:
  "map content (map (docx_record fname docid) kept) = map snd kept"
  by (simp add: content_docx_record)

lemma pdf_pages_contents:
  "map content (fst (pdf_pages L cfg fname docid i sec [] pages)) =
     concat (map (\<lambda>p. filter (\<lambda>c. MIN_CHUNK_SIZE cfg \<le> length c) (page_chunks L cfg p))
               (takeWhile (\<lambda>p. \<not> raises p) pages))"
proof (induction pages arbitrary: i sec)
  case Nil
  show ?case by simp
next
  case (Cons p pages)
  show ?case
  proof (cases p)
    case (Raised e)
    then show ?thesis by (simp add: raises_def)
  next
    case (Returned t)
    show ?thesis
    proof (cases t)
      case None
      then show ?thesis
        using Returned Cons.IH [of "i + 1" sec] by (simp add: raises_def page_chunks_def)
    next
      case (Some T)
      show ?thesis
      proof (cases "T = []")
        case True
        then show ?thesis
          using Returned Some Cons.IH [of "i + 1" sec]
          by (simp add: raises_def page_chunks_def clean_text_basic_def semantic_chunking_Nil)
      next
        case False
        let ?s = "if extract_title L T \<noteq> [] then extract_title L T else sec"
        let ?kept = "kept_chunks cfg (semantic_chunking cfg (clean_text_basic L T))"
        have "pdf_pages L cfg fname docid i sec [] (p # pages) =
              pdf_pages L cfg fname docid (i + 1) ?s
                (map (pdf_record fname docid (i + 1) ?s) ?kept) pages"
          using False Returned Some by (simp add: Let_def)
        then have "fst (pdf_pages L cfg fname docid i sec [] (p # pages)) =
              map (pdf_record fname docid (i + 1) ?s) ?kept @
              fst (pdf_pages L cfg fname docid (i + 1) ?s [] pages)"
          using pdf_pages_acc [of L cfg fname docid "i + 1" ?s
              "map (pdf_record fname docid (i + 1) ?s) ?kept" pages]
          by simp
        then have "map content (fst (pdf_pages L cfg fname docid i sec [] (p # pages))) =
              map snd ?kept @
              map content (fst (pdf_pages L cfg fname docid (i + 1) ?s [] pages))"
          by (simp add: content_pdf_record)
        then show ?thesis
          using Returned Some Cons.IH [of "i + 1" ?s]
          by (simp add: raises_def page_chunks_def map_snd_kept_chunks)
      qed
    qed
  qed
qed

lemma process_pdf_contents:
  "map content (fst (process_pdf L cfg (Returned pages) fname docid)) =
     concat (map (\<lambda>p. filter (\<lambda>c. MIN_CHUNK_SIZE cfg \<le> length c) (page_chunks L cfg p))
               (takeWhile (\<lambda>p. \<not> raises p) pages))"
proof -
  have "fst (process_pdf L cfg (Returned pages) fname docid) =
        fst (pdf_pages L cfg fname docid 0 unknown_section [] pages)"
    by (simp add: process_pdf_def split: prod.splits option.splits)
  then show ?thesis
    by (simp only: pdf_pages_contents)
qed

lemma txt_chunks_Nil: "txt_chunks L cfg [] = []"
  by (simp add: txt_chunks_def txt_body_text_def txt_lines_def txt_body_lines_def
      clean_text_basic_def semantic_chunking_Nil)

lemma process_txt_contents:
  assumes "snd (process_txt L cfg (Returned raw_text) fname docid) = []"
  shows "map content (fst (process_txt L cfg (Returned raw_text) fname docid)) =
           filter (\<lambda>c. MIN_CHUNK_SIZE cfg \<le> length c) (txt_chunks L cfg raw_text)"
proof (cases "raw_text = []")
  case True
  then show ?thesis
    by (simp add: process_txt_def txt_chunks_Nil)
next
  case False
  from assms False obtain ttl url where t: "txt_title L (txt_lines raw_text) = Returned ttl"
    and v: "txt_source_url L (txt_lines raw_text) = Returned url"
    by (auto simp: process_txt_def split: attempt.splits)
  show ?thesis
  proof (cases "clean_text_basic L (txt_body_text L raw_text) = []")
    case True
    then show ?thesis
      using False t v
      by (simp add: process_txt_def txt_chunks_def semantic_chunking_Nil)
  next
    case nonempty: False
    then have "fst (process_txt L cfg (Returned raw_text) fname docid) =
          map (txt_record fname docid ttl url) (kept_chunks cfg (txt_chunks L cfg raw_text))"
      using False t v by (simp add: process_txt_def txt_chunks_def Let_def)
    then show ?thesis
      by (simp only: content_txt_records map_snd_kept_chunks)
  qed
qed

lemma process_docx_contents:
  "map content (fst (process_docx L cfg (Some (Returned paragraphs)) fname docid)) =
     filter (\<lambda>c. MIN_CHUNK_SIZE cfg \<le> length c) (docx_chunks L cfg paragraphs)"
proof (cases "clean_text_basic L
                (join [10] (filter (\<lambda>p. p \<noteq> [] \<and> strip p \<noteq> []) paragraphs)) = []")
  case True
  then show ?thesis
    by (simp add: process_docx_def docx_chunks_def semantic_chunking_Nil)
next
  case False
  then have "fst (process_docx L cfg (Some (Returned paragraphs)) fname docid) =
        map (docx_record fname docid) (kept_chunks cfg (docx_chunks L cfg paragraphs))"
    by (simp add: process_docx_def docx_chunks_def Let_def)
  then show ?thesis
    by (simp only: content_docx_records map_snd_kept_chunks)
qed

lemma excel_rows_contents:
  "map content (concat (map (excel_row L fname docid) df)) =
     filter (\<lambda>c. c \<noteq> []) (map (\<lambda>ir. row_text L (snd ir)) df)"
  by (induction df)
     (auto simp: excel_row_def excel_record_def row_text_def Let_def split: prod.splits)

lemma process_excel_contents:
  assumes "frame_of csv excel fname = Returned df"
  shows "map content (fst (process_excel L csv excel fname docid)) =
           filter (\<lambda>c. c \<noteq> []) (map (\<lambda>ir. row_text L (snd ir)) df)"
proof -
  have "fst (process_excel L csv excel fname docid) =
        concat (map (excel_row L fname docid) df)"
    using assms by (simp add: process_excel_def frame_of_def)
  then show ?thesis
    by (simp only: excel_rows_contents)
qed

section \<open>The run\<close>

lemma process_file_raises:
  "raises (process_file L cfg f) \<longleftrightarrow>
     \<not> startswith (fs_name f) (u ''.'') \<and> \<not> fs_isdir f \<and> \<not> encodable (fs_rel_path f)"
  by (simp add: process_file_def generate_doc_id_def raises_def)

lemma processed_returns: "processed f \<Longrightarrow> \<not> raises (process_file L cfg f)"
  by (simp add: process_file_raises processed_def)

lemma emitted_process_file:
  "emitted (process_file L cfg f) =
     (if startswith (fs_name f) (u ''.'') \<or> fs_isdir f \<or> \<not> encodable (fs_rel_path f) then []
      else fst (dispatch L cfg f (md5_hex L (fs_rel_path f))))"
  by (simp add: process_file_def generate_doc_id_def emitted_def split: prod.splits)

lemma main_loop_returns:
  assumes "list_all (\<lambda>f. \<not> raises (process_file L cfg f)) files"
  shows "main_loop L cfg all_data printed files =
           Returned (all_data @ concat (map (\<lambda>f. emitted (process_file L cfg f)) files),
                     printed @ concat (map (\<lambda>f. printed_lines (process_file L cfg f)) files))"
  using assms
proof (induction files arbitrary: all_data printed)
  case Nil
  show ?case by simp
next
  case (Cons f files)
  from Cons.prems obtain results lines where pf: "process_file L cfg f = Returned (results, lines)"
    by (cases "process_file L cfg f") (auto simp: raises_def)
  from Cons.prems have "list_all (\<lambda>f. \<not> raises (process_file L cfg f)) files"
    by simp
  from Cons.IH [OF this, of "all_data @ results" "printed @ lines"] show ?case
    by (simp add: pf emitted_def printed_lines_def)
qed

lemma main_loop_raises:
  assumes "\<not> list_all (\<lambda>f. \<not> raises (process_file L cfg f)) files"
  shows "raises (main_loop L cfg all_data printed files)"
  using assms
proof (induction files arbitrary: all_data printed)
  case Nil
  then show ?case by simp
next
  case (Cons f files)
  show ?case
  proof (cases "process_file L cfg f")
    case (Raised e)
    then show ?thesis by (simp add: raises_def)
  next
    case (Returned a)
    obtain results lines where a: "a = (results, lines)" by (cases a)
    from Cons.prems Returned
    have "\<not> list_all (\<lambda>f. \<not> raises (process_file L cfg f)) files"
      by (simp add: raises_def)
    from Cons.IH [OF this, of "all_data @ results" "printed @ lines"] show ?thesis
      by (simp add: Returned a)
  qed
qed

lemma main_loop_emitted:
  "emitted (main_loop L cfg [] [] files) =
     (if list_all (\<lambda>f. \<not> raises (process_file L cfg f)) files
      then concat (map (\<lambda>f. emitted (process_file L cfg f)) files) else [])"
proof (cases "list_all (\<lambda>f. \<not> raises (process_file L cfg f)) files")
  case True
  then show ?thesis
    using main_loop_returns [OF True, of "[]" "[]"] by (simp add: emitted_def)
next
  case False
  from main_loop_raises [OF this, of "[]" "[]"] show ?thesis
    using False by (cases "main_loop L cfg [] [] files") (simp_all add: emitted_def raises_def)
qed

lemma main_loop_origin:
  assumes "r \<in> set (emitted (main_loop L cfg [] [] files))"
  shows "\<exists>f\<in>set files. r \<in> set (emitted (process_file L cfg f))"
  using assms by (auto simp: main_loop_emitted split: if_splits)

lemma dispatch_cases:
  assumes "r \<in> set (fst (dispatch L cfg f docid))"
  shows "r \<in> set (fst (process_pdf L cfg (as_pdf f) (fs_rel_path f) docid)) \<or>
         r \<in> set (fst (process_excel L (as_csv f) (as_excel f) (fs_rel_path f) docid)) \<or>
         r \<in> set (fst (process_txt L cfg (as_txt f) (fs_rel_path f) docid)) \<or>
         r \<in> set (fst (process_docx L cfg (as_docx f) (fs_rel_path f) docid))"
  using assms by (auto simp: dispatch_def Let_def split: if_splits)

lemma process_file_origin:
  assumes "r \<in> set (emitted (process_file L cfg f))"
  shows "(\<exists>pages. as_pdf f = Returned pages \<and>
            page_origin L cfg (fs_rel_path f) (md5_hex L (fs_rel_path f)) 0 pages r) \<or>
         (\<exists>df k. frame_of (as_csv f) (as_excel f) (fs_rel_path f) = Returned df \<and>
            k < length df \<and> row_text L (snd (df ! k)) \<noteq> [] \<and>
            r = excel_record (fs_rel_path f) (md5_hex L (fs_rel_path f)) (fst (df ! k) + 1)
                  (row_text L (snd (df ! k)))) \<or>
         (\<exists>raw_text ttl url idx. as_txt f = Returned raw_text \<and>
            idx < length (txt_chunks L cfg raw_text) \<and>
            MIN_CHUNK_SIZE cfg \<le> length (txt_chunks L cfg raw_text ! idx) \<and>
            r = txt_record (fs_rel_path f) (md5_hex L (fs_rel_path f)) ttl url
                  (idx, txt_chunks L cfg raw_text ! idx)) \<or>
         (\<exists>paragraphs idx. as_docx f = Some (Returned paragraphs) \<and>
            idx < length (docx_chunks L cfg paragraphs) \<and>
            MIN_CHUNK_SIZE cfg \<le> length (docx_chunks L cfg paragraphs ! idx) \<and>
            r = docx_record (fs_rel_path f) (md5_hex L (fs_rel_path f))
                  (idx, docx_chunks L cfg paragraphs ! idx))"
proof -
  let ?p = "fs_rel_path f" and ?d = "md5_hex L (fs_rel_path f)"
  from assms have "r \<in> set (fst (dispatch L cfg f ?d))"
    by (simp add: emitted_process_file split: if_splits)
  from dispatch_cases [OF this]
  consider (pdf) "r \<in> set (fst (process_pdf L cfg (as_pdf f) ?p ?d))"
    | (table) "r \<in> set (fst (process_excel L (as_csv f) (as_excel f) ?p ?d))"
    | (plain) "r \<in> set (fst (process_txt L cfg (as_txt f) ?p ?d))"
    | (rich) "r \<in> set (fst (process_docx L cfg (as_docx f) ?p ?d))"
    by blast
  then show ?thesis
  proof cases
    case pdf
    from process_pdf_origin [OF this] show ?thesis by blast
  next
    case table
    from process_excel_origin [OF this] show ?thesis by blast
  next
    case plain
    from process_txt_origin [OF this] show ?thesis by blast
  next
    case rich
    from process_docx_origin [OF this] show ?thesis by blast
  qed
qed

text \<open>The four shapes of a record, without the unit it stems from.\<close>

lemma record_shapes:
  assumes "r \<in> set (emitted (main_loop L cfg [] [] files))"
  shows "(\<exists>fname docid pnum s idx c. MIN_CHUNK_SIZE cfg \<le> length c \<and>
            r = pdf_record fname docid pnum s (idx, c)) \<or>
         (\<exists>fname docid row_num c. c \<noteq> [] \<and> r = excel_record fname docid row_num c) \<or>
         (\<exists>fname docid ttl url idx c. MIN_CHUNK_SIZE cfg \<le> length c \<and>
            r = txt_record fname docid ttl url (idx, c)) \<or>
         (\<exists>fname docid idx c. MIN_CHUNK_SIZE cfg \<le> length c \<and>
            r = docx_record fname docid (idx, c))"
proof -
  from assms obtain f where "r \<in> set (emitted (process_file L cfg f))"
    using main_loop_origin by blast
  from process_file_origin [OF this] show ?thesis
    unfolding page_origin_def by blast
qed

lemma file_types_differ:
  "u ''pdf'' \<noteq> u ''table''" "u ''txt'' \<noteq> u ''table''" "u ''docx'' \<noteq> u ''table''"
  by (simp_all add: u_def)


section \<open>The examples, evaluated\<close>

lemmas eval_defs =
  u_def isspace_def isprintable_def isdecimal_def strip_def lstrip_def rstrip_def
  startswith_def endswith_def lower_def lower_char_def
  clean_text_basic_def is_terminator_def is_delim_def match_delim_def split_sentences_def
  overlap_data_def assemble_def semantic_chunking_def default_config_def small_config_def
  is_cjk_numeral_def match_chapter_def match_numbered_def extract_title_def
  first_sent_match_def anchor_def kept_chunks_def enumerate_eq_zip
  unknown_section_def pdf_record_def process_pdf_def pdf_error_def
  row_content_def table_section_def excel_record_def excel_row_def process_excel_def
  excel_error_def example_lib_def generate_doc_id_def encodable_def is_surrogate_def
  file_ext_def dispatch_def process_file_def main_def Let_def str_nat.simps
  is_linebreak_def after_colon_def unknown_title_def txt_title_def txt_source_url_def
  txt_body_lines_def txt_lines_def txt_body_text_def txt_record_def process_txt_def
  txt_error_def docx_section_def docx_record_def process_docx_def docx_error_def
  docx_skipped_def

lemma example_pdf_outcome:
  "main example_lib [example_pdf] =
     Returned
       ([pdf_record (u ''doc/m.pdf'') (u ''100111994710946112100102'') 1 unknown_section
           (0, page_plain_a),
         pdf_record (u ''doc/m.pdf'') (u ''100111994710946112100102'') 2 [31532, 19968, 31456]
           (0, page_chapter),
         pdf_record (u ''doc/m.pdf'') (u ''100111994710946112100102'') 3 [31532, 19968, 31456]
           (0, page_plain_c)], [])"
  by (simp add: example_pdf_def page_plain_a_def page_chapter_def page_plain_c_def eval_defs)

lemma broken_pdf_outcome:
  "main example_lib [broken_pdf] =
     Returned
       ([pdf_record (u ''doc/b.pdf'') (u ''10011199479846112100102'') 1 unknown_section
           (0, page_plain_a)],
        [pdf_error (u ''doc/b.pdf'') (u ''bad page'')])"
  by (simp add: broken_pdf_def page_plain_a_def eval_defs)

lemma short_pdf_outcome:
  "main example_lib [short_pdf] =
     Returned
       ([pdf_record (u ''s.pdf'') (u ''11546112100102'') 2 unknown_section (0, page_plain_a)],
        [])"
  by (simp add: short_pdf_def page_short_def page_plain_a_def eval_defs)

lemma example_csv_outcome:
  "main example_lib [example_csv] =
     Returned
       ([excel_record (u ''t.csv'') (u ''1164699115118'') 1 (u ''a:1''),
         excel_record (u ''t.csv'') (u ''1164699115118'') 2 [97, 58, 12290, 98]], [])"
  by (simp add: example_csv_def eval_defs)

lemma example_txt_outcome:
  "main example_lib [example_txt] =
     Returned
       ([txt_record (u ''n.txt'') (u ''11046116120116'') (u ''T'') (u ''x'')
           (0, body_sentence)], [])"
  by (simp add: example_txt_def body_sentence_def eval_defs)

lemma example_docx_outcome:
  "main example_lib [example_docx] =
     Returned
       ([docx_record (u ''w.docx'') (u ''1194610011199120'') (0, paragraph_sentence)], [])"
  by (simp add: example_docx_def paragraph_sentence_def eval_defs)

lemma unencodable_pdf_outcome:
  "main example_lib [example_csv, unencodable_pdf, example_csv] =
     Raised (u ''surrogates not allowed'')"
  by (simp add: example_csv_def unencodable_pdf_def page_plain_a_def eval_defs)






lemma main_single: "emitted (main L [f]) = emitted (process_file L default_config f)"
  by (cases "process_file L default_config f") (auto simp: main_def emitted_def)

lemma processed_emitted:
  "processed f \<Longrightarrow>
   emitted (process_file L cfg f) = fst (dispatch L cfg f (md5_hex L (fs_rel_path f)))"
  by (simp add: emitted_process_file processed_def)

lemma processed_printed:
  "processed f \<Longrightarrow>
   printed_lines (process_file L cfg f) = snd (dispatch L cfg f (md5_hex L (fs_rel_path f)))"
  by (simp add: process_file_def generate_doc_id_def processed_def printed_lines_def
      split: prod.splits)

section \<open>The minimum length\<close>

lemma min_length_record:
  assumes "r \<in> set (emitted (main_loop L cfg [] [] files))"
  shows "(if file_type r = u ''table'' then content r \<noteq> []
          else MIN_CHUNK_SIZE cfg \<le> length (content r)) \<and>
         chunk_len r = length (content r)"
  using record_shapes [OF assms]
  by (elim disjE exE conjE)
     (simp_all add: pdf_record_def excel_record_def txt_record_def docx_record_def
        file_types_differ)

lemma file_contents_pdf:
  assumes "processed f" and "file_ext L (fs_name f) = u ''pdf''"
    and "as_pdf f = Returned pages"
  shows "map content (emitted (process_file L cfg f)) =
           concat (map (\<lambda>p. filter (\<lambda>c. MIN_CHUNK_SIZE cfg \<le> length c) (page_chunks L cfg p))
                     (takeWhile (\<lambda>p. \<not> raises p) pages))"
  using assms
  by (simp add: processed_emitted dispatch_def process_pdf_contents)

lemma file_contents_table:
  assumes "processed f" and "file_ext L (fs_name f) \<in> set [u ''xlsx'', u ''xls'', u ''csv'']"
    and "frame_of (as_csv f) (as_excel f) (fs_rel_path f) = Returned df"
  shows "map content (emitted (process_file L cfg f)) =
           filter (\<lambda>c. c \<noteq> []) (map (\<lambda>ir. row_text L (snd ir)) df)"
proof -
  have "file_ext L (fs_name f) \<noteq> u ''pdf''"
    using assms(2) by (auto simp: u_def)
  then have "emitted (process_file L cfg f) =
        fst (process_excel L (as_csv f) (as_excel f) (fs_rel_path f)
               (md5_hex L (fs_rel_path f)))"
    using assms(1,2) by (simp add: processed_emitted dispatch_def Let_def)
  then show ?thesis
    using process_excel_contents [OF assms(3)] by simp
qed

lemma file_contents_txt:
  assumes "processed f" and "file_ext L (fs_name f) = u ''txt''"
    and "as_txt f = Returned raw_text" and "printed_lines (process_file L cfg f) = []"
  shows "map content (emitted (process_file L cfg f)) =
           filter (\<lambda>c. MIN_CHUNK_SIZE cfg \<le> length c) (txt_chunks L cfg raw_text)"
proof -
  let ?d = "md5_hex L (fs_rel_path f)"
  have d: "dispatch L cfg f ?d = process_txt L cfg (Returned raw_text) (fs_rel_path f) ?d"
    using assms(2,3) by (simp add: dispatch_def Let_def u_def)
  have "snd (process_txt L cfg (Returned raw_text) (fs_rel_path f) ?d) = []"
    using assms(1,4) d by (simp add: processed_printed)
  from process_txt_contents [OF this] show ?thesis
    using assms(1) d by (simp add: processed_emitted)
qed

lemma file_contents_docx:
  assumes "processed f" and "file_ext L (fs_name f) = u ''docx''"
    and "as_docx f = Some (Returned paragraphs)"
  shows "map content (emitted (process_file L cfg f)) =
           filter (\<lambda>c. MIN_CHUNK_SIZE cfg \<le> length c) (docx_chunks L cfg paragraphs)"
proof -
  let ?d = "md5_hex L (fs_rel_path f)"
  have "dispatch L cfg f ?d =
        process_docx L cfg (Some (Returned paragraphs)) (fs_rel_path f) ?d"
    using assms(2,3) by (simp add: dispatch_def Let_def u_def)
  then show ?thesis
    using assms(1) process_docx_contents [of L cfg paragraphs "fs_rel_path f" ?d]
    by (simp add: processed_emitted)
qed

lemma main_one: "main L [f] = process_file L default_config f"
  by (cases "process_file L default_config f") (auto simp: main_def)

lemma processed_examples:
  "processed short_pdf" "processed example_csv" "processed example_txt"
  "processed example_docx" "processed example_pdf" "processed broken_pdf"
  by (simp_all add: processed_def short_pdf_def example_csv_def example_txt_def
      example_docx_def example_pdf_def broken_pdf_def startswith_def encodable_def
      is_surrogate_def u_def)

lemma ext_examples:
  "file_ext example_lib (fs_name short_pdf) = u ''pdf''"
  "file_ext example_lib (fs_name example_csv) \<in> set [u ''xlsx'', u ''xls'', u ''csv'']"
  "file_ext example_lib (fs_name example_txt) = u ''txt''"
  "file_ext example_lib (fs_name example_docx) = u ''docx''"
  by (simp_all add: short_pdf_def example_csv_def example_txt_def example_docx_def
      file_ext_def lower_def lower_char_def u_def)

text \<open>
  C1, as the script has it. The records of paginated, plain-text and rich-text files have a
  content of at least the minimum chunk size, and the contents that such a file gives are
  exactly the chunks of its units that have that length, in order: for a paginated
  document the chunks of the pages before the first page that raises, for a text file
  those of its body when the adapter printed no failure, for a rich-text file those of its
  paragraphs. The rows of a table are not measured: the contents that a table gives are the
  cleaned texts of its rows that are not empty, however short. The records of a run that
  ends are those of its files, in order.
\<close>

theorem min_chunk_size_filter:
  "(\<forall>r\<in>set (emitted (main_loop L cfg [] [] files)).
      (if file_type r = u ''table'' then content r \<noteq> []
       else MIN_CHUNK_SIZE cfg \<le> length (content r)) \<and>
      chunk_len r = length (content r)) \<and>
   (processed f \<and> file_ext L (fs_name f) = u ''pdf'' \<and> as_pdf f = Returned pages \<longrightarrow>
      map content (emitted (process_file L cfg f)) =
        concat (map (\<lambda>p. filter (\<lambda>c. MIN_CHUNK_SIZE cfg \<le> length c) (page_chunks L cfg p))
                  (takeWhile (\<lambda>p. \<not> raises p) pages))) \<and>
   (processed f \<and> file_ext L (fs_name f) \<in> set [u ''xlsx'', u ''xls'', u ''csv''] \<and>
    frame_of (as_csv f) (as_excel f) (fs_rel_path f) = Returned df \<longrightarrow>
      map content (emitted (process_file L cfg f)) =
        filter (\<lambda>c. c \<noteq> []) (map (\<lambda>ir. row_text L (snd ir)) df)) \<and>
   (processed f \<and> file_ext L (fs_name f) = u ''txt'' \<and> as_txt f = Returned raw_text \<and>
    printed_lines (process_file L cfg f) = [] \<longrightarrow>
      map content (emitted (process_file L cfg f)) =
        filter (\<lambda>c. MIN_CHUNK_SIZE cfg \<le> length c) (txt_chunks L cfg raw_text)) \<and>
   (processed f \<and> file_ext L (fs_name f) = u ''docx'' \<and>
    as_docx f = Some (Returned paragraphs) \<longrightarrow>
      map content (emitted (process_file L cfg f)) =
        filter (\<lambda>c. MIN_CHUNK_SIZE cfg \<le> length c) (docx_chunks L cfg paragraphs)) \<and>
   (list_all (\<lambda>f. \<not> raises (process_file L cfg f)) files \<longrightarrow>
      emitted (main_loop L cfg [] [] files) =
        concat (map (\<lambda>f. emitted (process_file L cfg f)) files))"
proof (intro conjI ballI impI)
  fix r assume "r \<in> set (emitted (main_loop L cfg [] [] files))"
  from min_length_record [OF this]
  show "if file_type r = u ''table'' then content r \<noteq> []
        else MIN_CHUNK_SIZE cfg \<le> length (content r)"
    and "chunk_len r = length (content r)"
    by simp_all
next
  assume "processed f \<and> file_ext L (fs_name f) = u ''pdf'' \<and> as_pdf f = Returned pages"
  then show "map content (emitted (process_file L cfg f)) =
        concat (map (\<lambda>p. filter (\<lambda>c. MIN_CHUNK_SIZE cfg \<le> length c) (page_chunks L cfg p))
                  (takeWhile (\<lambda>p. \<not> raises p) pages))"
    using file_contents_pdf by blast
next
  assume "processed f \<and> file_ext L (fs_name f) \<in> set [u ''xlsx'', u ''xls'', u ''csv''] \<and>
    frame_of (as_csv f) (as_excel f) (fs_rel_path f) = Returned df"
  then show "map content (emitted (process_file L cfg f)) =
        filter (\<lambda>c. c \<noteq> []) (map (\<lambda>ir. row_text L (snd ir)) df)"
    using file_contents_table by blast
next
  assume "processed f \<and> file_ext L (fs_name f) = u ''txt'' \<and> as_txt f = Returned raw_text \<and>
    printed_lines (process_file L cfg f) = []"
  then show "map content (emitted (process_file L cfg f)) =
        filter (\<lambda>c. MIN_CHUNK_SIZE cfg \<le> length c) (txt_chunks L cfg raw_text)"
    using file_contents_txt by blast
next
  assume "processed f \<and> file_ext L (fs_name f) = u ''docx'' \<and>
    as_docx f = Some (Returned paragraphs)"
  then show "map content (emitted (process_file L cfg f)) =
        filter (\<lambda>c. MIN_CHUNK_SIZE cfg \<le> length c) (docx_chunks L cfg paragraphs)"
    using file_contents_docx by blast
next
  assume "list_all (\<lambda>f. \<not> raises (process_file L cfg f)) files"
  then show "emitted (main_loop L cfg [] [] files) =
        concat (map (\<lambda>f. emitted (process_file L cfg f)) files)"
    by (simp add: main_loop_emitted)
qed

theorem min_chunk_size_filter_witness:
  "map content (emitted (process_file example_lib default_config short_pdf)) =
     concat (map (\<lambda>p. filter (\<lambda>c. MIN_CHUNK_SIZE default_config \<le> length c)
                         (page_chunks example_lib default_config p))
               (takeWhile (\<lambda>p. \<not> raises p)
                  [Returned (Some page_short), Returned (Some page_plain_a)])) \<and>
   map content (emitted (process_file example_lib default_config short_pdf)) =
     [page_plain_a] \<and>
   length page_short = 49 \<and> length page_plain_a = 50 \<and>
   map content (emitted (process_file example_lib default_config example_csv)) =
     filter (\<lambda>c. c \<noteq> [])
       (map (\<lambda>ir. row_text example_lib (snd ir))
          [(0 :: nat, [(u ''a'', u ''1'')]), (1, [(u ''a'', [12290, 98])])]) \<and>
   map content (emitted (process_file example_lib default_config example_txt)) =
     filter (\<lambda>c. MIN_CHUNK_SIZE default_config \<le> length c)
       (txt_chunks example_lib default_config
          (u ''T'' @ [10] @ u ''=='' @ [10] @ u ''URL: x'' @ [10] @ body_sentence)) \<and>
   map content (emitted (process_file example_lib default_config example_docx)) =
     filter (\<lambda>c. MIN_CHUNK_SIZE default_config \<le> length c)
       (docx_chunks example_lib default_config [paragraph_sentence]) \<and>
   list_all (\<lambda>r. (if file_type r = u ''table'' then content r \<noteq> []
                   else MIN_CHUNK_SIZE default_config \<le> length (content r)) \<and>
                  chunk_len r = length (content r))
     (emitted (main_loop example_lib default_config [] [] [short_pdf, example_csv])) \<and>
   list_all (\<lambda>f. \<not> raises (process_file example_lib default_config f))
     [short_pdf, example_csv] \<and>
   emitted (main_loop example_lib default_config [] [] [short_pdf, example_csv]) =
     concat (map (\<lambda>f. emitted (process_file example_lib default_config f))
               [short_pdf, example_csv])"
proof -
  note pdf = min_chunk_size_filter
    [of example_lib default_config "[short_pdf, example_csv]" short_pdf
        "[Returned (Some page_short), Returned (Some page_plain_a)]" "[]" "[]" "[]"]
  note csv = min_chunk_size_filter
    [of example_lib default_config "[]" example_csv "[]"
        "[(0, [(u ''a'', u ''1'')]), (1, [(u ''a'', [12290, 98])])]" "[]" "[]"]
  note plain = min_chunk_size_filter
    [of example_lib default_config "[]" example_txt "[]" "[]"
        "u ''T'' @ [10] @ u ''=='' @ [10] @ u ''URL: x'' @ [10] @ body_sentence" "[]"]
  note rich = min_chunk_size_filter
    [of example_lib default_config "[]" example_docx "[]" "[]" "[]" "[paragraph_sentence]"]
  have a: "as_pdf short_pdf = Returned [Returned (Some page_short), Returned (Some page_plain_a)]"
    by (simp add: short_pdf_def)
  have b: "frame_of (as_csv example_csv) (as_excel example_csv) (fs_rel_path example_csv) =
           Returned [(0, [(u ''a'', u ''1'')]), (1, [(u ''a'', [12290, 98])])]"
    by (simp add: frame_of_def example_csv_def endswith_def u_def)
  have c: "as_txt example_txt =
           Returned (u ''T'' @ [10] @ u ''=='' @ [10] @ u ''URL: x'' @ [10] @ body_sentence)"
    by (simp add: example_txt_def)
  have c': "printed_lines (process_file example_lib default_config example_txt) = []"
    by (simp add: main_one [symmetric] example_txt_outcome printed_lines_def)
  have d: "as_docx example_docx = Some (Returned [paragraph_sentence])"
    by (simp add: example_docx_def)
  have e: "map content (emitted (process_file example_lib default_config short_pdf)) =
           [page_plain_a]"
    by (simp add: main_one [symmetric] short_pdf_outcome emitted_def pdf_record_def)
  have l: "length page_short = 49" "length page_plain_a = 50"
    by (simp_all add: page_short_def page_plain_a_def)
  have 1: "map content (emitted (process_file example_lib default_config short_pdf)) =
     concat (map (\<lambda>p. filter (\<lambda>c. MIN_CHUNK_SIZE default_config \<le> length c)
                         (page_chunks example_lib default_config p))
               (takeWhile (\<lambda>p. \<not> raises p)
                  [Returned (Some page_short), Returned (Some page_plain_a)]))"
    by (rule pdf [THEN conjunct2, THEN conjunct1, THEN mp])
       (intro conjI processed_examples(1) ext_examples(1) a)
  have 2: "map content (emitted (process_file example_lib default_config example_csv)) =
     filter (\<lambda>c. c \<noteq> [])
       (map (\<lambda>ir. row_text example_lib (snd ir))
          [(0 :: nat, [(u ''a'', u ''1'')]), (1, [(u ''a'', [12290, 98])])])"
    by (rule csv [THEN conjunct2, THEN conjunct2, THEN conjunct1, THEN mp])
       (intro conjI processed_examples(2) ext_examples(2) b)
  have 3: "map content (emitted (process_file example_lib default_config example_txt)) =
     filter (\<lambda>c. MIN_CHUNK_SIZE default_config \<le> length c)
       (txt_chunks example_lib default_config
          (u ''T'' @ [10] @ u ''=='' @ [10] @ u ''URL: x'' @ [10] @ body_sentence))"
    by (rule plain [THEN conjunct2, THEN conjunct2, THEN conjunct2, THEN conjunct1, THEN mp])
       (intro conjI processed_examples(3) ext_examples(3) c c')
  have 4: "map content (emitted (process_file example_lib default_config example_docx)) =
     filter (\<lambda>c. MIN_CHUNK_SIZE default_config \<le> length c)
       (docx_chunks example_lib default_config [paragraph_sentence])"
    by (rule rich [THEN conjunct2, THEN conjunct2, THEN conjunct2, THEN conjunct2, THEN conjunct1, THEN mp])
       (intro conjI processed_examples(4) ext_examples(4) d)
  have 5: "list_all (\<lambda>r. (if file_type r = u ''table'' then content r \<noteq> []
                   else MIN_CHUNK_SIZE default_config \<le> length (content r)) \<and>
                  chunk_len r = length (content r))
     (emitted (main_loop example_lib default_config [] [] [short_pdf, example_csv]))"
    unfolding list_all_iff by (rule pdf [THEN conjunct1])
  have 6: "list_all (\<lambda>f. \<not> raises (process_file example_lib default_config f))
             [short_pdf, example_csv]"
    by (simp add: processed_returns processed_examples)
  have 7: "emitted (main_loop example_lib default_config [] [] [short_pdf, example_csv]) =
     concat (map (\<lambda>f. emitted (process_file example_lib default_config f))
               [short_pdf, example_csv])"
    by (rule pdf [THEN conjunct2, THEN conjunct2, THEN conjunct2, THEN conjunct2,
          THEN conjunct2, THEN mp]) (rule 6)
  from 1 e l 2 3 4 5 6 7 show ?thesis
    by (intro conjI)
qed

text \<open>
  The first row of the example table gives a record whose content, \<open>a:1\<close>, has three
  characters, under the minimum of fifty.
\<close>

theorem min_chunk_size_table_counterexample:
  "map content (emitted (main example_lib [example_csv])) =
     [u ''a:1'', [97, 58, 12290, 98]] \<and>
   length (u ''a:1'') < MIN_CHUNK_SIZE default_config"
  by (simp add: example_csv_outcome emitted_def excel_record_def u_def default_config_def)

section \<open>The anchor\<close>

lemma anchor_prefix: "prefix (anchor c) c"
proof (cases "dropWhile (\<lambda>x. \<not> is_terminator x) c")
  case Nil
  show ?thesis
    unfolding anchor_def first_sent_match_def Nil by (simp add: take_is_prefix)
next
  case (Cons t rest)
  have "c = takeWhile (\<lambda>x. \<not> is_terminator x) c @ t # rest"
    using takeWhile_dropWhile_id [of "\<lambda>x. \<not> is_terminator x" c] Cons by simp
  then have "prefix (takeWhile (\<lambda>x. \<not> is_terminator x) c @ [t]) c"
    by (metis append.assoc append_Cons append_Nil prefixI)
  then show ?thesis
    using Cons by (simp add: anchor_def first_sent_match_def)
qed

lemma anchor_no_terminator:
  assumes "list_all (\<lambda>x. \<not> is_terminator x) c"
  shows "anchor c = take 30 c"
proof -
  have d: "dropWhile (\<lambda>x. \<not> is_terminator x) c = []"
    using assms by (simp add: list_all_iff)
  show ?thesis
    unfolding anchor_def first_sent_match_def d by simp
qed

lemma anchor_terminator:
  assumes "\<not> list_all (\<lambda>x. \<not> is_terminator x) c"
  shows "is_terminator (last (anchor c))"
    and "prefix q c \<Longrightarrow> q \<noteq> [] \<Longrightarrow> is_terminator (last q) \<Longrightarrow> length (anchor c) \<le> length q"
proof -
  let ?P = "\<lambda>x. \<not> is_terminator x"
  from assms have ne: "dropWhile ?P c \<noteq> []"
    by (simp add: list_all_iff)
  then obtain t rest where tr: "dropWhile ?P c = t # rest"
    by (cases "dropWhile ?P c") auto
  have t: "is_terminator t"
    using hd_dropWhile [OF ne] tr by simp
  have a: "anchor c = takeWhile ?P c @ [t]"
    using tr by (simp add: anchor_def first_sent_match_def)
  show "is_terminator (last (anchor c))"
    using a t by simp
  show "length (anchor c) \<le> length q"
    if q: "prefix q c" "q \<noteq> []" "is_terminator (last q)"
  proof (rule ccontr)
    assume "\<not> length (anchor c) \<le> length q"
    then have "length q \<le> length (takeWhile ?P c)"
      using a by simp
    moreover have "prefix (takeWhile ?P c) c"
      by (metis prefixI takeWhile_dropWhile_id)
    ultimately have "prefix q (takeWhile ?P c)"
      using q(1) prefix_length_prefix by blast
    then have "set q \<subseteq> set (takeWhile ?P c)"
      by (rule set_mono_prefix)
    then have "last q \<in> set (takeWhile ?P c)"
      using q(2) last_in_set by blast
    then have "\<not> is_terminator (last q)"
      by (rule set_takeWhileD [THEN conjunct2])
    with q(3) show False by simp
  qed
qed

lemma anchor_text_record:
  assumes "r \<in> set (emitted (main_loop L cfg [] [] files))"
  shows "anchor_text r =
           (if file_type r = u ''table'' then take 30 (content r) else anchor (content r))"
  using record_shapes [OF assms]
  by (elim disjE exE conjE)
     (simp_all add: pdf_record_def excel_record_def txt_record_def docx_record_def
        file_types_differ)

lemma anchor_text_prefix_record:
  assumes "r \<in> set (emitted (main_loop L cfg [] [] files))"
  shows "prefix (anchor_text r) (content r)"
  unfolding anchor_text_record [OF assms]
  by (simp add: anchor_prefix take_is_prefix)

text \<open>
  C8, as the script has it. In every record of a run the anchor is a prefix of the content,
  so it is never longer. For a paginated, plain-text or rich-text record it is the anchor
  function of the content: the first 30 characters of a content without terminator, and
  otherwise the shortest prefix that ends in a terminator. For a record of a table it is
  the first 30 characters of the content, terminator or not.
\<close>

theorem anchor_text_is_prefix:
  "(\<forall>r\<in>set (emitted (main_loop L cfg [] [] files)).
      prefix (anchor_text r) (content r) \<and>
      length (anchor_text r) \<le> length (content r) \<and>
      anchor_text r =
        (if file_type r = u ''table'' then take 30 (content r) else anchor (content r))) \<and>
   (if list_all (\<lambda>x. \<not> is_terminator x) c then anchor c = take 30 c
    else is_terminator (last (anchor c)) \<and>
         (\<forall>q. prefix q c \<and> q \<noteq> [] \<and> is_terminator (last q) \<longrightarrow>
              length (anchor c) \<le> length q))"
proof (intro conjI ballI)
  fix r
  assume r: "r \<in> set (emitted (main_loop L cfg [] [] files))"
  show "prefix (anchor_text r) (content r)"
    by (rule anchor_text_prefix_record [OF r])
  then show "length (anchor_text r) \<le> length (content r)"
    by (rule prefix_length_le)
  show "anchor_text r =
          (if file_type r = u ''table'' then take 30 (content r) else anchor (content r))"
    by (rule anchor_text_record [OF r])
next
  show "if list_all (\<lambda>x. \<not> is_terminator x) c then anchor c = take 30 c
        else is_terminator (last (anchor c)) \<and>
             (\<forall>q. prefix q c \<and> q \<noteq> [] \<and> is_terminator (last q) \<longrightarrow>
                  length (anchor c) \<le> length q)"
    using anchor_no_terminator [of c] anchor_terminator [of c] by auto
qed

theorem anchor_text_is_prefix_witness:
  "list_all (\<lambda>r. prefix (anchor_text r) (content r) \<and>
                  length (anchor_text r) \<le> length (content r) \<and>
                  anchor_text r =
                    (if file_type r = u ''table'' then take 30 (content r)
                     else anchor (content r)))
     (emitted (main_loop example_lib default_config [] [] [example_pdf, example_csv])) \<and>
   is_terminator (last (anchor [97, 12290, 98, 65281])) \<and>
   length (anchor [97, 12290, 98, 65281]) \<le> length [97, 12290 :: nat]"
proof -
  note inst = anchor_text_is_prefix
    [of example_lib default_config "[example_pdf, example_csv]" "[97, 12290, 98, 65281]"]
  have t: "\<not> list_all (\<lambda>x. \<not> is_terminator x) [97, 12290, 98, 65281]"
    by (simp add: is_terminator_def)
  have q: "prefix [97, 12290] [97, 12290, 98, 65281 :: nat] \<and> [97, 12290 :: nat] \<noteq> [] \<and>
           is_terminator (last [97, 12290])"
    by (simp add: is_terminator_def)
  from inst t have "is_terminator (last (anchor [97, 12290, 98, 65281]))"
    and "\<forall>q. prefix q [97, 12290, 98, 65281] \<and> q \<noteq> [] \<and> is_terminator (last q) \<longrightarrow>
             length (anchor [97, 12290, 98, 65281]) \<le> length q"
    by simp_all
  with q inst show ?thesis
    unfolding list_all_iff by blast
qed

text \<open>
  The second row of the example table has the content \<open>a:\<close>, U+3002, \<open>b\<close>. Its anchor is
  the whole content, while the shortest prefix that ends in the full stop is \<open>a:\<close>, U+3002.
\<close>

theorem anchor_text_table_counterexample:
  "map anchor_text (emitted (main example_lib [example_csv])) = [u ''a:1'', [97, 58, 12290, 98]] \<and>
   map content (emitted (main example_lib [example_csv])) = [u ''a:1'', [97, 58, 12290, 98]] \<and>
   anchor [97, 58, 12290, 98] = [97, 58, 12290]"
  by (simp add: example_csv_outcome emitted_def excel_record_def u_def anchor_def
      first_sent_match_def is_terminator_def)

section \<open>The section title of the example document\<close>

text \<open>
  C4. The second page of the example document begins with the heading of the first
  chapter, six characters long. The records of the first page carry the label for an
  unknown section; those of the second and the third page carry the three characters
  U+7B2C U+4E00 U+7AE0 that the pattern matches, and not the heading.
\<close>

theorem section_title_example_pdf:
  "map (\<lambda>r. (page_num r, section_title r)) (emitted (main example_lib [example_pdf])) =
     [(1, unknown_section), (2, [31532, 19968, 31456]), (3, [31532, 19968, 31456])] \<and>
   take 6 page_chapter = [31532, 19968, 31456, 32, 24635, 21017] \<and>
   extract_title L ([31532, 19968, 31456, 32, 24635, 21017] @ rest) = [31532, 19968, 31456]"
  by (simp add: example_pdf_outcome emitted_def pdf_record_def page_chapter_def
      extract_title_def match_chapter_def is_cjk_numeral_def strip_def lstrip_def rstrip_def
      isspace_def)

section \<open>A file that cannot be read\<close>

lemma process_pdf_partial:
  assumes "list_all (\<lambda>p. \<not> raises p) ps"
  shows "process_pdf L cfg (Returned (ps @ Raised e # qs)) fname docid =
           (fst (process_pdf L cfg (Returned ps) fname docid), [pdf_error fname e])"
proof -
  have a: "pdf_pages L cfg fname docid 0 unknown_section [] (ps @ Raised e # qs) =
           (fst (pdf_pages L cfg fname docid 0 unknown_section [] ps), Some e)"
    by (rule pdf_pages_raise [OF assms])
  have "snd (pdf_pages L cfg fname docid 0 unknown_section [] ps) = None"
    by (rule pdf_pages_no_raise [OF assms])
  then have b: "fst (process_pdf L cfg (Returned ps) fname docid) =
                fst (pdf_pages L cfg fname docid 0 unknown_section [] ps)"
    by (simp add: process_pdf_def split: prod.splits option.splits)
  show ?thesis
    unfolding b by (simp add: process_pdf_def a)
qed

text \<open>
  C5, as the script has it. An exception of a reading library is caught inside the adapter,
  which prints a line and returns. So the body of the loop of \<open>main\<close> returns for every
  entry whose relative path can be encoded, whatever the libraries make of the file, and
  when no body raises the loop ends with the concatenation of what every file gives and of
  what was printed. A file that cannot be opened or read gives no record, in each of the
  four adapters. A paginated document in which a page raises gives the records of the
  pages before that page: the results appended so far are returned.
\<close>

theorem failure_isolation:
  "process_pdf L cfg (Raised e) fname docid = ([], [pdf_error fname e]) \<and>
   (list_all (\<lambda>p. \<not> raises p) ps \<longrightarrow>
      process_pdf L cfg (Returned (ps @ Raised e # qs)) fname docid =
        (fst (process_pdf L cfg (Returned ps) fname docid), [pdf_error fname e])) \<and>
   (frame_of csv excel fname = Raised e \<longrightarrow>
      process_excel L csv excel fname docid = ([], [excel_error fname e])) \<and>
   process_txt L cfg (Raised e) fname docid = ([], [txt_error fname e]) \<and>
   process_docx L cfg (Some (Raised e)) fname docid = ([], [docx_error fname e]) \<and>
   (encodable (fs_rel_path f) \<longrightarrow>
      process_file L cfg f =
        Returned (if startswith (fs_name f) (u ''.'') \<or> fs_isdir f then ([], [])
                  else dispatch L cfg f (md5_hex L (fs_rel_path f)))) \<and>
   (list_all (\<lambda>f. \<not> raises (process_file L cfg f)) files \<longrightarrow>
      main_loop L cfg [] [] files =
        Returned (concat (map (\<lambda>f. emitted (process_file L cfg f)) files),
                  concat (map (\<lambda>f. printed_lines (process_file L cfg f)) files)))"
proof (intro conjI impI)
  show "process_pdf L cfg (Raised e) fname docid = ([], [pdf_error fname e])"
    by (simp add: process_pdf_def)
  show "process_pdf L cfg (Returned (ps @ Raised e # qs)) fname docid =
        (fst (process_pdf L cfg (Returned ps) fname docid), [pdf_error fname e])"
    if "list_all (\<lambda>p. \<not> raises p) ps"
    using that by (rule process_pdf_partial)
  show "process_excel L csv excel fname docid = ([], [excel_error fname e])"
    if "frame_of csv excel fname = Raised e"
    using that by (simp add: process_excel_def frame_of_def)
  show "process_txt L cfg (Raised e) fname docid = ([], [txt_error fname e])"
    by (simp add: process_txt_def)
  show "process_docx L cfg (Some (Raised e)) fname docid = ([], [docx_error fname e])"
    by (simp add: process_docx_def)
  show "process_file L cfg f =
        Returned (if startswith (fs_name f) (u ''.'') \<or> fs_isdir f then ([], [])
                  else dispatch L cfg f (md5_hex L (fs_rel_path f)))"
    if "encodable (fs_rel_path f)"
    using that by (simp add: process_file_def generate_doc_id_def)
  show "main_loop L cfg [] [] files =
        Returned (concat (map (\<lambda>f. emitted (process_file L cfg f)) files),
                  concat (map (\<lambda>f. printed_lines (process_file L cfg f)) files))"
    if "list_all (\<lambda>f. \<not> raises (process_file L cfg f)) files"
    using main_loop_returns [OF that, of "[]" "[]"] by simp
qed

theorem failure_isolation_witness:
  "list_all (\<lambda>p. \<not> raises p) [Returned (Some page_plain_a)] \<and>
   process_pdf example_lib default_config
     (Returned ([Returned (Some page_plain_a)] @ Raised (u ''bad page'') #
                [Returned (Some page_plain_c)]))
     (u ''doc/b.pdf'') (u ''d'') =
   (fst (process_pdf example_lib default_config (Returned [Returned (Some page_plain_a)])
           (u ''doc/b.pdf'') (u ''d'')),
    [pdf_error (u ''doc/b.pdf'') (u ''bad page'')]) \<and>
   frame_of (Raised (u ''no such file'')) (Returned []) (u ''t.csv'') =
     Raised (u ''no such file'') \<and>
   process_excel example_lib (Raised (u ''no such file'')) (Returned []) (u ''t.csv'') (u ''d'') =
     ([], [excel_error (u ''t.csv'') (u ''no such file'')]) \<and>
   list_all (\<lambda>f. \<not> raises (process_file example_lib default_config f))
     [broken_pdf, example_csv] \<and>
   main_loop example_lib default_config [] [] [broken_pdf, example_csv] =
     Returned
       (concat (map (\<lambda>f. emitted (process_file example_lib default_config f))
                  [broken_pdf, example_csv]),
        concat (map (\<lambda>f. printed_lines (process_file example_lib default_config f))
                  [broken_pdf, example_csv])) \<and>
   encodable (fs_rel_path broken_pdf) \<and>
   process_file example_lib default_config broken_pdf =
     Returned (if startswith (fs_name broken_pdf) (u ''.'') \<or> fs_isdir broken_pdf
               then ([], [])
               else dispatch example_lib default_config broken_pdf
                      (md5_hex example_lib (fs_rel_path broken_pdf)))"
proof -
  note page = failure_isolation
    [of example_lib default_config "u ''bad page''" "u ''doc/b.pdf''" "u ''d''"
        "[Returned (Some page_plain_a)]" "[Returned (Some page_plain_c)]"
        "Raised []" "Raised []" example_csv "[]"]
  note frame = failure_isolation
    [of example_lib default_config "u ''no such file''" "u ''t.csv''" "u ''d''" "[]" "[]"
        "Raised (u ''no such file'')" "Returned []" example_csv "[]"]
  note good = failure_isolation
    [of example_lib default_config "[]" "[]" "[]" "[]" "[]" "Raised []" "Raised []"
        example_csv "[broken_pdf, example_csv]"]
  note body = failure_isolation
    [of example_lib default_config "[]" "[]" "[]" "[]" "[]" "Raised []" "Raised []"
        broken_pdf "[]"]
  have a: "list_all (\<lambda>p. \<not> raises p) [Returned (Some page_plain_a)]"
    by (simp add: raises_def)
  have b: "frame_of (Raised (u ''no such file'')) (Returned []) (u ''t.csv'') =
           Raised (u ''no such file'')"
    by (simp add: frame_of_def endswith_def u_def)
  have c: "list_all (\<lambda>f. \<not> raises (process_file example_lib default_config f))
             [broken_pdf, example_csv]"
    by (simp add: processed_returns processed_examples)
  have d: "encodable (fs_rel_path broken_pdf)"
    by (simp add: broken_pdf_def encodable_def is_surrogate_def u_def)
  have 1: "process_pdf example_lib default_config
     (Returned ([Returned (Some page_plain_a)] @ Raised (u ''bad page'') #
                [Returned (Some page_plain_c)]))
     (u ''doc/b.pdf'') (u ''d'') =
   (fst (process_pdf example_lib default_config (Returned [Returned (Some page_plain_a)])
           (u ''doc/b.pdf'') (u ''d'')),
    [pdf_error (u ''doc/b.pdf'') (u ''bad page'')])"
    by (rule page [THEN conjunct2, THEN conjunct1, THEN mp]) (rule a)
  have 2: "process_excel example_lib (Raised (u ''no such file'')) (Returned []) (u ''t.csv'')
             (u ''d'') = ([], [excel_error (u ''t.csv'') (u ''no such file'')])"
    by (rule frame [THEN conjunct2, THEN conjunct2, THEN conjunct1, THEN mp]) (rule b)
  have 3: "main_loop example_lib default_config [] [] [broken_pdf, example_csv] =
     Returned
       (concat (map (\<lambda>f. emitted (process_file example_lib default_config f))
                  [broken_pdf, example_csv]),
        concat (map (\<lambda>f. printed_lines (process_file example_lib default_config f))
                  [broken_pdf, example_csv]))"
    by (rule good [THEN conjunct2, THEN conjunct2, THEN conjunct2, THEN conjunct2,
          THEN conjunct2, THEN conjunct2, THEN mp]) (rule c)
  have 4: "process_file example_lib default_config broken_pdf =
     Returned (if startswith (fs_name broken_pdf) (u ''.'') \<or> fs_isdir broken_pdf
               then ([], [])
               else dispatch example_lib default_config broken_pdf
                      (md5_hex example_lib (fs_rel_path broken_pdf)))"
    by (rule body [THEN conjunct2, THEN conjunct2, THEN conjunct2, THEN conjunct2,
          THEN conjunct2, THEN conjunct1, THEN mp]) (rule d)
  from a 1 b 2 c 3 d 4 show ?thesis
    by (intro conjI)
qed

text \<open>
  The second page of the broken example document raises. The run prints the failure and
  still returns the record of the first page.
\<close>

theorem failure_isolation_counterexample:
  "map (\<lambda>r. (page_num r, content r)) (emitted (main example_lib [broken_pdf])) =
     [(1, page_plain_a)] \<and>
   printed_lines (main example_lib [broken_pdf]) =
     [pdf_error (u ''doc/b.pdf'') (u ''bad page'')]"
  by (simp add: broken_pdf_outcome emitted_def printed_lines_def pdf_record_def)

section \<open>Identifiers\<close>

lemma doc_id_record:
  assumes "r \<in> set (emitted (process_file L cfg f))"
  shows "doc_id r = md5_hex L (fs_rel_path f)"
  using process_file_origin [OF assms]
  unfolding page_origin_def
  by (elim disjE exE conjE)
     (simp_all add: pdf_record_def excel_record_def txt_record_def docx_record_def)





text \<open>
  C7. The document identifier of every record of a file is the digest of the relative
  path of the file. Two entries with the same relative path, whatever their contents and
  whatever the configuration, give records with the same document identifier. When a run
  ends, what it emits is the concatenation, file by file, of what each entry gives by
  itself: the records of an entry, and so its chunk identifiers, do not depend on the rest
  of the run.
\<close>

theorem doc_id_of_rel_path:
  "(\<forall>r\<in>set (emitted (process_file L cfg f)). doc_id r = md5_hex L (fs_rel_path f)) \<and>
   (fs_rel_path f = fs_rel_path g \<longrightarrow>
      (\<forall>r\<in>set (emitted (process_file L cfg f)).
         \<forall>r'\<in>set (emitted (process_file L cfg' g)). doc_id r = doc_id r')) \<and>
   (main L files = Returned (results, lines) \<longrightarrow>
      results = concat (map (\<lambda>f. emitted (process_file L default_config f)) files))"
proof (intro conjI ballI impI)
  show "doc_id r = md5_hex L (fs_rel_path f)"
    if "r \<in> set (emitted (process_file L cfg f))" for r
    using that by (rule doc_id_record)
  show "doc_id r = doc_id r'"
    if "fs_rel_path f = fs_rel_path g" "r \<in> set (emitted (process_file L cfg f))"
      "r' \<in> set (emitted (process_file L cfg' g))" for r r'
    using that doc_id_record [of r L cfg f] doc_id_record [of r' L cfg' g] by simp
  show "results = concat (map (\<lambda>f. emitted (process_file L default_config f)) files)"
    if m: "main L files = Returned (results, lines)"
  proof -
    have "list_all (\<lambda>f. \<not> raises (process_file L default_config f)) files"
    proof (rule ccontr)
      assume "\<not> list_all (\<lambda>f. \<not> raises (process_file L default_config f)) files"
      from main_loop_raises [OF this, of "[]" "[]"] m show False
        by (simp add: main_def raises_def)
    qed
    from main_loop_returns [OF this, of "[]" "[]"] m show ?thesis
      by (simp add: main_def)
  qed
qed

theorem doc_id_of_rel_path_witness:
  "fs_rel_path example_csv =
     fs_rel_path (example_csv \<lparr> as_csv := Returned [(7, [(u ''a'', u ''2'')])] \<rparr>) \<and>
   list_all (\<lambda>r. doc_id r = md5_hex example_lib (fs_rel_path example_csv))
     (emitted (process_file example_lib default_config example_csv)) \<and>
   list_all (\<lambda>r. list_all (\<lambda>r'. doc_id r = doc_id r')
                    (emitted (process_file example_lib small_config
                       (example_csv \<lparr> as_csv := Returned [(7, [(u ''a'', u ''2'')])] \<rparr>))))
     (emitted (process_file example_lib default_config example_csv)) \<and>
   map doc_id (emitted (process_file example_lib default_config example_csv)) =
     [u ''1164699115118'', u ''1164699115118''] \<and>
   main example_lib [example_pdf] =
     Returned (emitted (main example_lib [example_pdf]), []) \<and>
   emitted (main example_lib [example_pdf]) =
     concat (map (\<lambda>f. emitted (process_file example_lib default_config f)) [example_pdf])"
proof -
  note inst = doc_id_of_rel_path
    [of example_lib default_config example_csv
        "example_csv \<lparr> as_csv := Returned [(7, [(u ''a'', u ''2'')])] \<rparr>" small_config
        "[example_pdf]" "emitted (main example_lib [example_pdf])" "[]"]
  have p: "fs_rel_path example_csv =
           fs_rel_path (example_csv \<lparr> as_csv := Returned [(7, [(u ''a'', u ''2'')])] \<rparr>)"
    by simp
  have ids: "map doc_id (emitted (process_file example_lib default_config example_csv)) =
             [u ''1164699115118'', u ''1164699115118'']"
    unfolding main_one [symmetric] example_csv_outcome
    by (simp add: emitted_def excel_record_def)
  have m: "main example_lib [example_pdf] =
           Returned (emitted (main example_lib [example_pdf]), [])"
    by (simp add: example_pdf_outcome emitted_def)
  have 1: "list_all (\<lambda>r. doc_id r = md5_hex example_lib (fs_rel_path example_csv))
     (emitted (process_file example_lib default_config example_csv))"
    unfolding list_all_iff by (rule inst [THEN conjunct1])
  have 2: "list_all (\<lambda>r. list_all (\<lambda>r'. doc_id r = doc_id r')
                    (emitted (process_file example_lib small_config
                       (example_csv \<lparr> as_csv := Returned [(7, [(u ''a'', u ''2'')])] \<rparr>))))
     (emitted (process_file example_lib default_config example_csv))"
    unfolding list_all_iff by (rule inst [THEN conjunct2, THEN conjunct1, THEN mp]) (rule p)
  have 3: "emitted (main example_lib [example_pdf]) =
     concat (map (\<lambda>f. emitted (process_file example_lib default_config f)) [example_pdf])"
    by (rule inst [THEN conjunct2, THEN conjunct2, THEN mp]) (rule m)
  from p 1 2 ids m 3 show ?thesis
    by (intro conjI)
qed

end
